theory Spec2Isabelle
  imports Main "HOL-Library.Word"
begin

section \<open>The message relay of \<open>pictorus_module.cpp\<close>\<close>

text \<open>
  The module relays uORB topics between the PX4 bus and the Pictorus engine inside a
  fixed-period loop. Everything the file calls but does not define (the uORB API, the
  \<open>rust_*\<close> entry points of the engine, the clock, the sleep) is a field of the
  record \<open>extern\<close>: a function of the state \<open>'w\<close> of the outside world that returns
  its result together with the next state of the world. No assumption is made on how
  these functions behave. Every call the relay makes, and every line it logs, is appended
  to a trace, so that a property such as ``no publish call is made'' is a property of the
  trace.
\<close>

subsection \<open>Status codes (\<open>rust_interface.h\<close>)\<close>

datatype FfiError =
    FFI_SUCCESS
  | FFI_MESSAGE_LENGTH_MISMATCH
  | FFI_UNADVERTISED_MESSAGE
  | FFI_UNSUBSCRIBED_MESSAGE
  | FFI_INVALID_MESSAGE_INDEX
  | FFI_NULL_ARGUMENT
  | FFI_OTHER nat \<comment> \<open>any other value of the C enum: the \<open>default\<close> branch\<close>

fun ffi_error_to_string :: "FfiError \<Rightarrow> string" where
  "ffi_error_to_string FFI_SUCCESS = ''Success''"
| "ffi_error_to_string FFI_MESSAGE_LENGTH_MISMATCH = ''Message length mismatch''"
| "ffi_error_to_string FFI_UNADVERTISED_MESSAGE = ''Message type not advertised''"
| "ffi_error_to_string FFI_UNSUBSCRIBED_MESSAGE = ''Message type not subscribed''"
| "ffi_error_to_string FFI_INVALID_MESSAGE_INDEX = ''Invalid message index''"
| "ffi_error_to_string FFI_NULL_ARGUMENT = ''Null argument passed to function''"
| "ffi_error_to_string (FFI_OTHER n) = ''Unknown error''"

subsection \<open>Constants\<close>

definition MAX_MESSAGES :: nat where
  "MAX_MESSAGES = 16"

definition MAX_MESSAGE_SIZE :: nat where
  "MAX_MESSAGE_SIZE = 1024"

definition LOOP_INTERVAL_US :: "32 word" where
  "LOOP_INTERVAL_US = 10000"

subsection \<open>Topics, payloads, the trace\<close>

text \<open>
  An \<open>orb_id_t\<close> is a pointer to the topic's metadata; the code compares two of them by
  address and reads \<open>o_size\<close> and \<open>o_name\<close> through them. It is modelled by the address,
  with \<open>0\<close> for \<open>nullptr\<close>. An \<open>orb_advert_t\<close> is a pointer too, \<open>0\<close> for \<open>nullptr\<close>. A
  subscription handle is the C \<open>int\<close> that \<open>orb_subscribe\<close> returns.
\<close>

type_synonym orb_id_t = nat
type_synonym orb_advert_t = nat
type_synonym byte = "8 word"
type_synonym hrt_abstime = "64 word"

datatype log_msg =
    Failed_to_subscribe
  | Failed_to_advertise
  | Failed_input_count string
  | Failed_input_id nat string
  | Size_exceeds_max nat nat orb_id_t
  | Failed_write_input orb_id_t string
  | Subscribing orb_id_t
  | Too_many_subscriptions nat
  | Failed_output_count string
  | Failed_output_id nat string
  | Failed_check_update orb_id_t string
  | Failed_read_output orb_id_t string
  | Size_mismatch orb_id_t nat nat
  | Advertising orb_id_t
  | Too_many_publications nat

datatype event =
    PX4_ERR log_msg
  | PX4_INFO log_msg
  | Orb_subscribe orb_id_t int
    \<comment> \<open>\<open>orb_subscribe(id)\<close> and the handle it returned\<close>
  | Orb_unsubscribe int
  | Orb_check orb_id_t int int bool
    \<comment> \<open>\<open>orb_check(handle, &updated)\<close> made by the binding of this topic: handle,
        return code, \<open>updated\<close>\<close>
  | Orb_copy orb_id_t int int
    \<comment> \<open>\<open>orb_copy(id, handle, buffer)\<close> and its return code\<close>
  | Orb_advertise orb_id_t "byte list" orb_advert_t
    \<comment> \<open>\<open>orb_advertise(id, initial_data)\<close>: the \<open>o_size\<close> bytes at \<open>initial_data\<close>, and the
        handle it returned\<close>
  | Orb_publish orb_id_t orb_advert_t "byte list" int
    \<comment> \<open>\<open>orb_publish(id, handle, data)\<close>: handle, the \<open>o_size\<close> bytes at \<open>data\<close>, return
        code\<close>
  | Get_input_id nat FfiError orb_id_t
    \<comment> \<open>\<open>rust_get_input_message_id(i, &id)\<close>\<close>
  | Write_input orb_id_t "byte list" nat FfiError
    \<comment> \<open>\<open>rust_write_input_message(id, buffer, len)\<close>: the \<open>len\<close> bytes read, \<open>len\<close>,
        status\<close>
  | Get_output_id nat FfiError orb_id_t
  | Has_update orb_id_t FfiError bool
    \<comment> \<open>\<open>rust_output_message_has_update(id, &has_update)\<close>\<close>
  | Read_output orb_id_t FfiError nat
    \<comment> \<open>\<open>rust_read_output_message(id, buffer, MAX_MESSAGE_SIZE, &bytes_read)\<close>\<close>
  | App_update hrt_abstime
  | Usleep hrt_abstime
    \<comment> \<open>the argument of \<open>px4_usleep\<close> as the expression computes it, in 64 bits\<close>

subsection \<open>What the file calls and does not define\<close>

record 'w extern =
  ndebug :: bool
    \<comment> \<open>whether \<open>NDEBUG\<close> is defined, which turns \<open>assert\<close> into nothing\<close>
  o_size :: "orb_id_t \<Rightarrow> nat"
    \<comment> \<open>\<open>message_id->o_size\<close>\<close>
  orb_subscribe :: "orb_id_t \<Rightarrow> 'w \<Rightarrow> int \<times> 'w"
  orb_unsubscribe :: "int \<Rightarrow> 'w \<Rightarrow> 'w"
  orb_check :: "int \<Rightarrow> 'w \<Rightarrow> (int \<times> bool) \<times> 'w"
    \<comment> \<open>return code, and \<open>updated\<close> after the call (it is \<open>false\<close> before)\<close>
  orb_copy :: "orb_id_t \<Rightarrow> int \<Rightarrow> 'w \<Rightarrow> (int \<times> byte list) \<times> 'w"
    \<comment> \<open>return code, and the bytes the bus wrote at the start of the buffer\<close>
  orb_advertise :: "orb_id_t \<Rightarrow> byte list \<Rightarrow> 'w \<Rightarrow> orb_advert_t \<times> 'w"
  orb_publish :: "orb_id_t \<Rightarrow> orb_advert_t \<Rightarrow> byte list \<Rightarrow> 'w \<Rightarrow> int \<times> 'w"
  rust_get_input_message_count :: "'w \<Rightarrow> (FfiError \<times> nat) \<times> 'w"
    \<comment> \<open>status, and \<open>count\<close> after the call (it is \<open>0\<close> before)\<close>
  rust_get_input_message_id :: "nat \<Rightarrow> 'w \<Rightarrow> (FfiError \<times> orb_id_t) \<times> 'w"
  rust_write_input_message :: "orb_id_t \<Rightarrow> byte list \<Rightarrow> nat \<Rightarrow> 'w \<Rightarrow> FfiError \<times> 'w"
  rust_get_output_message_count :: "'w \<Rightarrow> (FfiError \<times> nat) \<times> 'w"
  rust_get_output_message_id :: "nat \<Rightarrow> 'w \<Rightarrow> (FfiError \<times> orb_id_t) \<times> 'w"
  rust_output_message_has_update :: "orb_id_t \<Rightarrow> 'w \<Rightarrow> (FfiError \<times> bool) \<times> 'w"
  rust_read_output_message :: "orb_id_t \<Rightarrow> nat \<Rightarrow> 'w \<Rightarrow> (FfiError \<times> nat \<times> byte list) \<times> 'w"
    \<comment> \<open>status, \<open>bytes_written\<close>, and the bytes the engine wrote at the start of the
        buffer\<close>
  hrt_absolute_time :: "'w \<Rightarrow> hrt_abstime \<times> 'w"
  app_interface_update :: "hrt_abstime \<Rightarrow> 'w \<Rightarrow> 'w"
  parameter_update_sub_updated :: "'w \<Rightarrow> bool \<times> 'w"
    \<comment> \<open>\<open>_parameter_update_sub.updated()\<close>\<close>
  parameter_update_sub_copy :: "'w \<Rightarrow> 'w"
    \<comment> \<open>\<open>_parameter_update_sub.copy(&update)\<close>\<close>
  updateParams :: "'w \<Rightarrow> 'w"
  px4_usleep :: "hrt_abstime \<Rightarrow> 'w \<Rightarrow> 'w"

record 'w sys =
  world :: 'w
  trace :: "event list"

definition emit :: "event \<Rightarrow> 'w sys \<Rightarrow> 'w sys" where
  "emit e st = st\<lparr>trace := trace st @ [e]\<rparr>"

definition call :: "('w \<Rightarrow> 'r \<times> 'w) \<Rightarrow> 'w sys \<Rightarrow> 'r \<times> 'w sys" where
  "call f st = (case f (world st) of (r, w) \<Rightarrow> (r, st\<lparr>world := w\<rparr>))"

definition exec :: "('w \<Rightarrow> 'w) \<Rightarrow> 'w sys \<Rightarrow> 'w sys" where
  "exec f st = st\<lparr>world := f (world st)\<rparr>"

text \<open>
  An external function that writes through a pointer into the 1024-byte buffer leaves
  the rest of the buffer as it was.
\<close>

definition store :: "byte list \<Rightarrow> byte list \<Rightarrow> byte list" where
  "store bytes buffer = take (length buffer) (bytes @ drop (length bytes) buffer)"

subsection \<open>\<open>OrbSubscription\<close>\<close>

record OrbSubscription =
  sub_id :: orb_id_t
  sub_handle :: int

definition OrbSubscription_default :: OrbSubscription where
  "OrbSubscription_default = \<lparr>sub_id = 0, sub_handle = - 1\<rparr>"

definition OrbSubscription_new :: "'w extern \<Rightarrow> orb_id_t \<Rightarrow> 'w sys \<Rightarrow> OrbSubscription \<times> 'w sys" where
  "OrbSubscription_new env ident st =
     (case call (orb_subscribe env ident) st of (h, st1) \<Rightarrow>
        let st2 = emit (Orb_subscribe ident h) st1 in
        if h < 0 then (\<lparr>sub_id = ident, sub_handle = - 1\<rparr>, emit (PX4_ERR Failed_to_subscribe) st2)
        else (\<lparr>sub_id = ident, sub_handle = h\<rparr>, st2))"

definition sub_is_valid :: "OrbSubscription \<Rightarrow> bool" where
  "sub_is_valid s = (sub_handle s \<ge> 0)"

text \<open>Move assignment: returns the assigned object and the moved-from one.\<close>

definition sub_move_assign ::
  "'w extern \<Rightarrow> OrbSubscription \<Rightarrow> OrbSubscription \<Rightarrow> 'w sys \<Rightarrow> (OrbSubscription \<times> OrbSubscription) \<times> 'w sys" where
  "sub_move_assign env this other st =
     (let st1 = (if sub_handle this \<ge> 0
                 then emit (Orb_unsubscribe (sub_handle this)) (exec (orb_unsubscribe env (sub_handle this)) st)
                 else st)
      in ((\<lparr>sub_id = sub_id other, sub_handle = sub_handle other\<rparr>, other\<lparr>sub_handle := - 1\<rparr>), st1))"

definition sub_destroy :: "'w extern \<Rightarrow> OrbSubscription \<Rightarrow> 'w sys \<Rightarrow> 'w sys" where
  "sub_destroy env this st =
     (if sub_handle this \<ge> 0
      then emit (Orb_unsubscribe (sub_handle this)) (exec (orb_unsubscribe env (sub_handle this)) st)
      else st)"

definition check_updated :: "'w extern \<Rightarrow> OrbSubscription \<Rightarrow> 'w sys \<Rightarrow> bool \<times> 'w sys" where
  "check_updated env s st =
     (if \<not> sub_is_valid s then (False, st)
      else case call (orb_check env (sub_handle s)) st of ((rc, updated), st1) \<Rightarrow>
        (rc \<ge> 0 \<and> updated, emit (Orb_check (sub_id s) (sub_handle s) rc updated) st1))"

definition copy_data ::
  "'w extern \<Rightarrow> OrbSubscription \<Rightarrow> byte list \<Rightarrow> 'w sys \<Rightarrow> (bool \<times> byte list) \<times> 'w sys" where
  "copy_data env s buffer st =
     (if \<not> sub_is_valid s then ((False, buffer), st)
      else case call (orb_copy env (sub_id s) (sub_handle s)) st of ((rc, bytes), st1) \<Rightarrow>
        ((rc \<ge> 0, store bytes buffer), emit (Orb_copy (sub_id s) (sub_handle s) rc) st1))"

subsection \<open>\<open>OrbPublication\<close>\<close>

record OrbPublication =
  pub_id :: orb_id_t
  pub_handle :: orb_advert_t

definition OrbPublication_default :: OrbPublication where
  "OrbPublication_default = \<lparr>pub_id = 0, pub_handle = 0\<rparr>"

definition OrbPublication_new ::
  "'w extern \<Rightarrow> orb_id_t \<Rightarrow> byte list \<Rightarrow> 'w sys \<Rightarrow> OrbPublication \<times> 'w sys" where
  "OrbPublication_new env ident initial_data st =
     (case call (orb_advertise env ident initial_data) st of (h, st1) \<Rightarrow>
        let st2 = emit (Orb_advertise ident (take (o_size env ident) initial_data) h) st1 in
        (\<lparr>pub_id = ident, pub_handle = h\<rparr>,
         if h = 0 then emit (PX4_ERR Failed_to_advertise) st2 else st2))"

definition pub_is_valid :: "OrbPublication \<Rightarrow> bool" where
  "pub_is_valid p = (pub_handle p \<noteq> 0)"

definition publish :: "'w extern \<Rightarrow> OrbPublication \<Rightarrow> byte list \<Rightarrow> 'w sys \<Rightarrow> bool \<times> 'w sys" where
  "publish env p data st =
     (if \<not> pub_is_valid p then (False, st)
      else case call (orb_publish env (pub_id p) (pub_handle p) data) st of (rc, st1) \<Rightarrow>
        (rc \<ge> 0, emit (Orb_publish (pub_id p) (pub_handle p) (take (o_size env (pub_id p)) data) rc) st1))"

subsection \<open>\<open>InputManager\<close>\<close>

text \<open>
  The manager owns the array \<open>subscriptions_\<close> of \<open>MAX_MESSAGES\<close> bindings; the static
  buffer of \<open>process_input_messages\<close> is kept with it, since it lives as long. A
  reference returned by \<open>ensure_subscription\<close> is a slot of the array or the static
  \<open>invalid_sub\<close>, which stays default-constructed: its users call \<open>const\<close> methods only.
\<close>

record InputManager =
  in_buffer :: "byte list"
  subscriptions :: "OrbSubscription list"

definition InputManager_init :: InputManager where
  "InputManager_init =
     \<lparr>in_buffer = replicate MAX_MESSAGE_SIZE 0,
      subscriptions = replicate MAX_MESSAGES OrbSubscription_default\<rparr>"

datatype sub_ref = Sub_slot nat | Invalid_sub

fun sub_at :: "InputManager \<Rightarrow> sub_ref \<Rightarrow> OrbSubscription" where
  "sub_at mgr (Sub_slot i) = subscriptions mgr ! i"
| "sub_at mgr Invalid_sub = OrbSubscription_default"

function find_subscription :: "OrbSubscription list \<Rightarrow> orb_id_t \<Rightarrow> nat \<Rightarrow> nat option" where
  "find_subscription subs ident i =
     (if i < MAX_MESSAGES then
        (if sub_is_valid (subs ! i) \<and> sub_id (subs ! i) = ident then Some i
         else find_subscription subs ident (i + 1))
      else None)"
  by pat_completeness auto
termination
  by (relation "measure (\<lambda>(subs, ident, i). MAX_MESSAGES - i)") auto

function find_empty_sub :: "OrbSubscription list \<Rightarrow> nat \<Rightarrow> nat option" where
  "find_empty_sub subs i =
     (if i < MAX_MESSAGES then
        (if \<not> sub_is_valid (subs ! i) then Some i else find_empty_sub subs (i + 1))
      else None)"
  by pat_completeness auto
termination
  by (relation "measure (\<lambda>(subs, i). MAX_MESSAGES - i)") auto

definition ensure_subscription ::
  "'w extern \<Rightarrow> orb_id_t \<Rightarrow> InputManager \<Rightarrow> 'w sys \<Rightarrow> sub_ref \<times> InputManager \<times> 'w sys" where
  "ensure_subscription env ident mgr st =
     (case find_subscription (subscriptions mgr) ident 0 of
        Some i \<Rightarrow> (Sub_slot i, mgr, st)
      | None \<Rightarrow>
         (case find_empty_sub (subscriptions mgr) 0 of
            Some i \<Rightarrow>
              (case OrbSubscription_new env ident (emit (PX4_INFO (Subscribing ident)) st) of
                 (tmp, st1) \<Rightarrow>
                   (case sub_move_assign env (subscriptions mgr ! i) tmp st1 of
                      ((slot, moved), st2) \<Rightarrow>
                        (Sub_slot i,
                         mgr\<lparr>subscriptions := (subscriptions mgr)[i := slot]\<rparr>,
                         sub_destroy env moved st2)))
          | None \<Rightarrow>
              (Invalid_sub, mgr, emit (PX4_ERR (Too_many_subscriptions MAX_MESSAGES)) st)))"

text \<open>One pass of the body of the \<open>for\<close> loop; each \<open>continue\<close> is a return.\<close>

definition input_iteration ::
  "'w extern \<Rightarrow> nat \<Rightarrow> InputManager \<Rightarrow> 'w sys \<Rightarrow> InputManager \<times> 'w sys" where
  "input_iteration env i mgr st =
     (case call (rust_get_input_message_id env i) st of ((error, message_id), st0) \<Rightarrow>
      let st1 = emit (Get_input_id i error message_id) st0 in
      if error \<noteq> FFI_SUCCESS
      then (mgr, emit (PX4_ERR (Failed_input_id i (ffi_error_to_string error))) st1)
      else
        (case ensure_subscription env message_id mgr st1 of (sub, mgr1, st2) \<Rightarrow>
         case check_updated env (sub_at mgr1 sub) st2 of (updated, st3) \<Rightarrow>
         if updated then
           let message_size = o_size env message_id in
           if message_size > MAX_MESSAGE_SIZE
           then (mgr1, emit (PX4_ERR (Size_exceeds_max message_size MAX_MESSAGE_SIZE message_id)) st3)
           else
             (case copy_data env (sub_at mgr1 sub) (in_buffer mgr1) st3 of ((copied, buffer), st4) \<Rightarrow>
              let mgr2 = mgr1\<lparr>in_buffer := buffer\<rparr> in
              if copied then
                (case call (rust_write_input_message env message_id buffer message_size) st4 of
                   (result, st5) \<Rightarrow>
                     let st6 = emit (Write_input message_id (take message_size buffer) message_size result) st5 in
                     if result \<noteq> FFI_SUCCESS
                     then (mgr2, emit (PX4_ERR (Failed_write_input message_id (ffi_error_to_string result))) st6)
                     else (mgr2, st6))
              else (mgr2, st4))
         else (mgr1, st3)))"

function input_loop ::
  "'w extern \<Rightarrow> nat \<Rightarrow> nat \<Rightarrow> InputManager \<Rightarrow> 'w sys \<Rightarrow> InputManager \<times> 'w sys" where
  "input_loop env i input_count mgr st =
     (if i < input_count then
        (case input_iteration env i mgr st of (mgr1, st1) \<Rightarrow>
           input_loop env (i + 1) input_count mgr1 st1)
      else (mgr, st))"
  by pat_completeness auto
termination
  by (relation "measure (\<lambda>(env, i, input_count, mgr, st). input_count - i)") auto

datatype abort = Assertion_failed

definition process_input_messages ::
  "'w extern \<Rightarrow> InputManager \<Rightarrow> 'w sys \<Rightarrow> abort + InputManager \<times> 'w sys" where
  "process_input_messages env mgr st =
     (case call (rust_get_input_message_count env) st of ((error, input_count), st1) \<Rightarrow>
      if error \<noteq> FFI_SUCCESS
      then Inr (mgr, emit (PX4_ERR (Failed_input_count (ffi_error_to_string error))) st1)
      else if \<not> ndebug env \<and> \<not> input_count \<le> MAX_MESSAGES then Inl Assertion_failed
      else Inr (input_loop env 0 input_count mgr st1))"

subsection \<open>\<open>OutputManager\<close>\<close>

record OutputManager =
  out_buffer :: "byte list"
  publications :: "OrbPublication list"

definition OutputManager_init :: OutputManager where
  "OutputManager_init =
     \<lparr>out_buffer = replicate MAX_MESSAGE_SIZE 0,
      publications = replicate MAX_MESSAGES OrbPublication_default\<rparr>"

datatype pub_ref = Pub_slot nat | Invalid_pub

fun pub_at :: "OutputManager \<Rightarrow> pub_ref \<Rightarrow> OrbPublication" where
  "pub_at mgr (Pub_slot i) = publications mgr ! i"
| "pub_at mgr Invalid_pub = OrbPublication_default"

function find_publication :: "OrbPublication list \<Rightarrow> orb_id_t \<Rightarrow> nat \<Rightarrow> nat option" where
  "find_publication pubs ident i =
     (if i < MAX_MESSAGES then
        (if pub_is_valid (pubs ! i) \<and> pub_id (pubs ! i) = ident then Some i
         else find_publication pubs ident (i + 1))
      else None)"
  by pat_completeness auto
termination
  by (relation "measure (\<lambda>(pubs, ident, i). MAX_MESSAGES - i)") auto

function find_empty_pub :: "OrbPublication list \<Rightarrow> nat \<Rightarrow> nat option" where
  "find_empty_pub pubs i =
     (if i < MAX_MESSAGES then
        (if \<not> pub_is_valid (pubs ! i) then Some i else find_empty_pub pubs (i + 1))
      else None)"
  by pat_completeness auto
termination
  by (relation "measure (\<lambda>(pubs, i). MAX_MESSAGES - i)") auto

definition ensure_publication ::
  "'w extern \<Rightarrow> orb_id_t \<Rightarrow> byte list \<Rightarrow> OutputManager \<Rightarrow> 'w sys \<Rightarrow> pub_ref \<times> OutputManager \<times> 'w sys" where
  "ensure_publication env ident initial_data mgr st =
     (case find_publication (publications mgr) ident 0 of
        Some i \<Rightarrow> (Pub_slot i, mgr, st)
      | None \<Rightarrow>
         (case find_empty_pub (publications mgr) 0 of
            Some i \<Rightarrow>
              (case OrbPublication_new env ident initial_data (emit (PX4_INFO (Advertising ident)) st) of
                 (tmp, st1) \<Rightarrow>
                   (Pub_slot i, mgr\<lparr>publications := (publications mgr)[i := tmp]\<rparr>, st1))
          | None \<Rightarrow>
              (Invalid_pub, mgr, emit (PX4_ERR (Too_many_publications MAX_MESSAGES)) st)))"

definition output_iteration ::
  "'w extern \<Rightarrow> nat \<Rightarrow> OutputManager \<Rightarrow> 'w sys \<Rightarrow> OutputManager \<times> 'w sys" where
  "output_iteration env i mgr st =
     (case call (rust_get_output_message_id env i) st of ((error, message_id), st0) \<Rightarrow>
      let st1 = emit (Get_output_id i error message_id) st0 in
      if error \<noteq> FFI_SUCCESS
      then (mgr, emit (PX4_ERR (Failed_output_id i (ffi_error_to_string error))) st1)
      else
        (case call (rust_output_message_has_update env message_id) st1 of ((error2, has_update), st2) \<Rightarrow>
         let st3 = emit (Has_update message_id error2 has_update) st2 in
         if error2 \<noteq> FFI_SUCCESS
         then (mgr, emit (PX4_ERR (Failed_check_update message_id (ffi_error_to_string error2))) st3)
         else if has_update then
           let message_size = o_size env message_id in
           if message_size > MAX_MESSAGE_SIZE
           then (mgr, emit (PX4_ERR (Size_exceeds_max message_size MAX_MESSAGE_SIZE message_id)) st3)
           else
             (case call (rust_read_output_message env message_id MAX_MESSAGE_SIZE) st3 of
                ((result, bytes_read, bytes), st4) \<Rightarrow>
                  let st5 = emit (Read_output message_id result bytes_read) st4;
                      mgr1 = mgr\<lparr>out_buffer := store bytes (out_buffer mgr)\<rparr>
                  in
                  if result = FFI_SUCCESS \<and> bytes_read = message_size then
                    (case ensure_publication env message_id (out_buffer mgr1) mgr1 st5 of
                       (pub, mgr2, st6) \<Rightarrow>
                         if pub_is_valid (pub_at mgr2 pub)
                         then (mgr2, snd (publish env (pub_at mgr2 pub) (out_buffer mgr2) st6))
                         else (mgr2, st6))
                  else if result \<noteq> FFI_SUCCESS
                  then (mgr1, emit (PX4_ERR (Failed_read_output message_id (ffi_error_to_string result))) st5)
                  else (mgr1, emit (PX4_ERR (Size_mismatch message_id message_size bytes_read)) st5))
         else (mgr, st3)))"

function output_loop ::
  "'w extern \<Rightarrow> nat \<Rightarrow> nat \<Rightarrow> OutputManager \<Rightarrow> 'w sys \<Rightarrow> OutputManager \<times> 'w sys" where
  "output_loop env i output_count mgr st =
     (if i < output_count then
        (case output_iteration env i mgr st of (mgr1, st1) \<Rightarrow>
           output_loop env (i + 1) output_count mgr1 st1)
      else (mgr, st))"
  by pat_completeness auto
termination
  by (relation "measure (\<lambda>(env, i, output_count, mgr, st). output_count - i)") auto

definition process_output_messages ::
  "'w extern \<Rightarrow> OutputManager \<Rightarrow> 'w sys \<Rightarrow> abort + OutputManager \<times> 'w sys" where
  "process_output_messages env mgr st =
     (case call (rust_get_output_message_count env) st of ((error, output_count), st1) \<Rightarrow>
      if error \<noteq> FFI_SUCCESS
      then Inr (mgr, emit (PX4_ERR (Failed_output_count (ffi_error_to_string error))) st1)
      else if \<not> ndebug env \<and> \<not> output_count \<le> MAX_MESSAGES then Inl Assertion_failed
      else Inr (output_loop env 0 output_count mgr st1))"

subsection \<open>One cycle of \<open>PictorusModule::run\<close>\<close>

text \<open>
  \<open>run_cycle\<close> is the body of the \<open>while (!should_exit())\<close> loop; it ends in \<open>Inl\<close> when
  an assertion of a relay fails.
\<close>

definition parameters_update :: "'w extern \<Rightarrow> bool \<Rightarrow> 'w sys \<Rightarrow> 'w sys" where
  "parameters_update env force st =
     (case call (parameter_update_sub_updated env) st of (updated, st1) \<Rightarrow>
        if updated \<or> force
        then exec (updateParams env) (exec (parameter_update_sub_copy env) st1)
        else st1)"

text \<open>
  \<open>LOOP_INTERVAL_US\<close> is an \<open>unsigned int\<close> and the two timestamps are \<open>uint64_t\<close>, so the
  subtraction is done in 64 bits without sign and wraps around. \<open>px4_usleep\<close> is given the
  64-bit value; an implementation that takes a 32-bit \<open>useconds_t\<close> keeps its low half.
\<close>

definition sleep_argument :: "hrt_abstime \<Rightarrow> hrt_abstime \<Rightarrow> hrt_abstime" where
  "sleep_argument loop_start_time now = ucast LOOP_INTERVAL_US - (now - loop_start_time)"

definition run_cycle ::
  "'w extern \<Rightarrow> InputManager \<times> OutputManager \<Rightarrow> 'w sys \<Rightarrow> abort + (InputManager \<times> OutputManager) \<times> 'w sys" where
  "run_cycle env mgrs st =
     (case call (hrt_absolute_time env) st of (loop_start_time, st1) \<Rightarrow>
      (case process_input_messages env (fst mgrs) (parameters_update env False st1) of
         Inl a \<Rightarrow> Inl a
       | Inr (input_manager, st2) \<Rightarrow>
          (case call (hrt_absolute_time env) st2 of (app_time, st3) \<Rightarrow>
           (case process_output_messages env (snd mgrs)
                   (emit (App_update app_time) (exec (app_interface_update env app_time) st3)) of
              Inl a \<Rightarrow> Inl a
            | Inr (output_manager, st5) \<Rightarrow>
               (case call (hrt_absolute_time env) st5 of (now, st6) \<Rightarrow>
                  Inr ((input_manager, output_manager),
                       emit (Usleep (sleep_argument loop_start_time now))
                         (exec (px4_usleep env (sleep_argument loop_start_time now)) st6)))))))"

section \<open>Reading the trace\<close>

text \<open>
  The events a state has gained since an earlier one, and the number of events of a kind
  among them.
\<close>

definition emitted :: "'w sys \<Rightarrow> 'w sys \<Rightarrow> event list" where
  "emitted st st' = drop (length (trace st)) (trace st')"

definition occurrences :: "(event \<Rightarrow> bool) \<Rightarrow> event list \<Rightarrow> nat" where
  "occurrences P tr = length (filter P tr)"

subsection \<open>Kinds of events, by topic\<close>

fun input_listed :: "orb_id_t \<Rightarrow> event \<Rightarrow> bool" where
  "input_listed T (Get_input_id i error m) = (error = FFI_SUCCESS \<and> m = T)"
| "input_listed T _ = False"

text \<open>The binding of \<open>T\<close> reported a fresh update: \<open>check_updated\<close> returned \<open>true\<close>.\<close>

fun fresh_update :: "orb_id_t \<Rightarrow> event \<Rightarrow> bool" where
  "fresh_update T (Orb_check i h rc updated) = (i = T \<and> rc \<ge> 0 \<and> updated)"
| "fresh_update T _ = False"

fun copy_call :: "orb_id_t \<Rightarrow> event \<Rightarrow> bool" where
  "copy_call T (Orb_copy i h rc) = (i = T)"
| "copy_call T _ = False"

fun copy_ok :: "orb_id_t \<Rightarrow> event \<Rightarrow> bool" where
  "copy_ok T (Orb_copy i h rc) = (i = T \<and> rc \<ge> 0)"
| "copy_ok T _ = False"

fun write_call :: "orb_id_t \<Rightarrow> event \<Rightarrow> bool" where
  "write_call T (Write_input i bytes len result) = (i = T)"
| "write_call T _ = False"

fun oversize_error :: "orb_id_t \<Rightarrow> event \<Rightarrow> bool" where
  "oversize_error T (PX4_ERR (Size_exceeds_max n m i)) = (i = T)"
| "oversize_error T _ = False"

fun output_listed :: "orb_id_t \<Rightarrow> event \<Rightarrow> bool" where
  "output_listed T (Get_output_id i error m) = (error = FFI_SUCCESS \<and> m = T)"
| "output_listed T _ = False"

text \<open>The engine reported a pending update of \<open>T\<close>.\<close>

fun pending_update :: "orb_id_t \<Rightarrow> event \<Rightarrow> bool" where
  "pending_update T (Has_update i error has_update) = (i = T \<and> error = FFI_SUCCESS \<and> has_update)"
| "pending_update T _ = False"

fun read_call :: "orb_id_t \<Rightarrow> event \<Rightarrow> bool" where
  "read_call T (Read_output i result n) = (i = T)"
| "read_call T _ = False"

text \<open>A read of \<open>T\<close> that succeeded with \<open>sz\<close> bytes, with another count, that failed.\<close>

fun read_match :: "nat \<Rightarrow> orb_id_t \<Rightarrow> event \<Rightarrow> bool" where
  "read_match sz T (Read_output i result n) = (i = T \<and> result = FFI_SUCCESS \<and> n = sz)"
| "read_match sz T _ = False"

fun read_mismatch :: "nat \<Rightarrow> orb_id_t \<Rightarrow> event \<Rightarrow> bool" where
  "read_mismatch sz T (Read_output i result n) = (i = T \<and> result = FFI_SUCCESS \<and> n \<noteq> sz)"
| "read_mismatch sz T _ = False"

fun read_failed :: "orb_id_t \<Rightarrow> event \<Rightarrow> bool" where
  "read_failed T (Read_output i result n) = (i = T \<and> result \<noteq> FFI_SUCCESS)"
| "read_failed T _ = False"

fun publish_call :: "orb_id_t \<Rightarrow> event \<Rightarrow> bool" where
  "publish_call T (Orb_publish i h bytes rc) = (i = T)"
| "publish_call T _ = False"

fun advertise_call :: "orb_id_t \<Rightarrow> event \<Rightarrow> bool" where
  "advertise_call T (Orb_advertise i bytes h) = (i = T)"
| "advertise_call T _ = False"

fun mismatch_error :: "orb_id_t \<Rightarrow> event \<Rightarrow> bool" where
  "mismatch_error T (PX4_ERR (Size_mismatch i n m)) = (i = T)"
| "mismatch_error T _ = False"

fun read_error :: "orb_id_t \<Rightarrow> event \<Rightarrow> bool" where
  "read_error T (PX4_ERR (Failed_read_output i s)) = (i = T)"
| "read_error T _ = False"

fun binding_error :: "event \<Rightarrow> bool" where
  "binding_error (PX4_ERR Failed_to_advertise) = True"
| "binding_error (PX4_ERR (Too_many_publications n)) = True"
| "binding_error _ = False"

text \<open>The indices at which the relays asked the engine for a topic, in order.\<close>

fun input_indices :: "event list \<Rightarrow> nat list" where
  "input_indices [] = []"
| "input_indices (Get_input_id i error m # tr) = i # input_indices tr"
| "input_indices (e # tr) = input_indices tr"

fun output_indices :: "event list \<Rightarrow> nat list" where
  "output_indices [] = []"
| "output_indices (Get_output_id i error m # tr) = i # output_indices tr"
| "output_indices (e # tr) = output_indices tr"

subsection \<open>The events of one pass of each loop\<close>

definition ensure_sub_events :: "orb_id_t \<Rightarrow> event list \<Rightarrow> bool" where
  "ensure_sub_events T d =
     (d = [] \<or> d = [PX4_ERR (Too_many_subscriptions MAX_MESSAGES)] \<or>
      (\<exists>h. d = [PX4_INFO (Subscribing T), Orb_subscribe T h] \<or>
           d = [PX4_INFO (Subscribing T), Orb_subscribe T h, PX4_ERR Failed_to_subscribe]))"

definition input_relay_events :: "'w extern \<Rightarrow> orb_id_t \<Rightarrow> event list \<Rightarrow> bool" where
  "input_relay_events env T d =
     (d = [] \<or>
      (\<exists>h rc u. d = [Orb_check T h rc u] \<and> \<not> (rc \<ge> 0 \<and> u)) \<or>
      (\<exists>h rc. rc \<ge> 0 \<and> o_size env T > MAX_MESSAGE_SIZE \<and>
         d = [Orb_check T h rc True, PX4_ERR (Size_exceeds_max (o_size env T) MAX_MESSAGE_SIZE T)]) \<or>
      (\<exists>h rc rc2. rc \<ge> 0 \<and> o_size env T \<le> MAX_MESSAGE_SIZE \<and> rc2 < 0 \<and>
         d = [Orb_check T h rc True, Orb_copy T h rc2]) \<or>
      (\<exists>h rc rc2 bytes. rc \<ge> 0 \<and> o_size env T \<le> MAX_MESSAGE_SIZE \<and> rc2 \<ge> 0 \<and>
         d = [Orb_check T h rc True, Orb_copy T h rc2, Write_input T bytes (o_size env T) FFI_SUCCESS]) \<or>
      (\<exists>h rc rc2 bytes result. rc \<ge> 0 \<and> o_size env T \<le> MAX_MESSAGE_SIZE \<and> rc2 \<ge> 0 \<and>
         result \<noteq> FFI_SUCCESS \<and>
         d = [Orb_check T h rc True, Orb_copy T h rc2, Write_input T bytes (o_size env T) result,
              PX4_ERR (Failed_write_input T (ffi_error_to_string result))]))"

definition input_iteration_events :: "'w extern \<Rightarrow> nat \<Rightarrow> event list \<Rightarrow> bool" where
  "input_iteration_events env i d =
     ((\<exists>error m. error \<noteq> FFI_SUCCESS \<and>
         d = [Get_input_id i error m, PX4_ERR (Failed_input_id i (ffi_error_to_string error))]) \<or>
      (\<exists>m d1 d2. ensure_sub_events m d1 \<and> input_relay_events env m d2 \<and>
         d = Get_input_id i FFI_SUCCESS m # d1 @ d2))"

definition publish_events :: "orb_id_t \<Rightarrow> event list \<Rightarrow> bool" where
  "publish_events T d =
     ((\<exists>h bytes rc. d = [Orb_publish T h bytes rc]) \<or>
      (\<exists>h bytes bytes2 rc. h \<noteq> 0 \<and>
         d = [PX4_INFO (Advertising T), Orb_advertise T bytes h, Orb_publish T h bytes2 rc]) \<or>
      (\<exists>bytes. d = [PX4_INFO (Advertising T), Orb_advertise T bytes 0, PX4_ERR Failed_to_advertise]) \<or>
      d = [PX4_ERR (Too_many_publications MAX_MESSAGES)])"

definition output_iteration_events :: "'w extern \<Rightarrow> nat \<Rightarrow> event list \<Rightarrow> bool" where
  "output_iteration_events env i d =
     ((\<exists>error m. error \<noteq> FFI_SUCCESS \<and>
         d = [Get_output_id i error m, PX4_ERR (Failed_output_id i (ffi_error_to_string error))]) \<or>
      (\<exists>m error u. error \<noteq> FFI_SUCCESS \<and>
         d = [Get_output_id i FFI_SUCCESS m, Has_update m error u,
              PX4_ERR (Failed_check_update m (ffi_error_to_string error))]) \<or>
      (\<exists>m. d = [Get_output_id i FFI_SUCCESS m, Has_update m FFI_SUCCESS False]) \<or>
      (\<exists>m. o_size env m > MAX_MESSAGE_SIZE \<and>
         d = [Get_output_id i FFI_SUCCESS m, Has_update m FFI_SUCCESS True,
              PX4_ERR (Size_exceeds_max (o_size env m) MAX_MESSAGE_SIZE m)]) \<or>
      (\<exists>m result n. o_size env m \<le> MAX_MESSAGE_SIZE \<and> result \<noteq> FFI_SUCCESS \<and>
         d = [Get_output_id i FFI_SUCCESS m, Has_update m FFI_SUCCESS True, Read_output m result n,
              PX4_ERR (Failed_read_output m (ffi_error_to_string result))]) \<or>
      (\<exists>m n. o_size env m \<le> MAX_MESSAGE_SIZE \<and> n \<noteq> o_size env m \<and>
         d = [Get_output_id i FFI_SUCCESS m, Has_update m FFI_SUCCESS True, Read_output m FFI_SUCCESS n,
              PX4_ERR (Size_mismatch m (o_size env m) n)]) \<or>
      (\<exists>m d1. o_size env m \<le> MAX_MESSAGE_SIZE \<and> publish_events m d1 \<and>
         d = [Get_output_id i FFI_SUCCESS m, Has_update m FFI_SUCCESS True,
              Read_output m FFI_SUCCESS (o_size env m)] @ d1))"

subsection \<open>A complete pass, read off its events\<close>

text \<open>
  The events of a pass record every answer the pass was given: the status of the topic
  query, the handle \<open>orb_subscribe\<close> returned, the result of \<open>orb_check\<close>, of \<open>orb_copy\<close>,
  of the write; on the output side the answers to the update query and to the read, and
  the handle \<open>orb_advertise\<close> returned. \<open>input_pass env i d\<close> says that \<open>d\<close> is a pass for
  index \<open>i\<close> carried as far as those answers allow, and no further: after a topic query
  that succeeds comes the binding (an existing one, a new subscription, or the capacity
  error); after a valid binding the poll; after a poll that reports an update the size
  check; after it the copy; after a copy that succeeds the write. A pass that stops
  earlier than its answers allow is not a complete pass. The predicates below go through
  the events from the last step of a pass to the first.
\<close>

definition input_write :: "'w extern \<Rightarrow> orb_id_t \<Rightarrow> event list \<Rightarrow> bool" where
  "input_write env T d =
     (case d of
        Write_input m bytes len result # d1 \<Rightarrow>
          m = T \<and> len = o_size env T \<and>
          (if result = FFI_SUCCESS then d1 = []
           else d1 = [PX4_ERR (Failed_write_input T (ffi_error_to_string result))])
      | _ \<Rightarrow> False)"

definition input_transfer :: "'w extern \<Rightarrow> orb_id_t \<Rightarrow> int \<Rightarrow> event list \<Rightarrow> bool" where
  "input_transfer env T h d =
     (if o_size env T > MAX_MESSAGE_SIZE
      then d = [PX4_ERR (Size_exceeds_max (o_size env T) MAX_MESSAGE_SIZE T)]
      else (case d of
              Orb_copy m h' rc # d1 \<Rightarrow>
                m = T \<and> h' = h \<and> (if rc \<ge> 0 then input_write env T d1 else d1 = [])
            | _ \<Rightarrow> False))"

definition input_poll :: "'w extern \<Rightarrow> orb_id_t \<Rightarrow> int \<Rightarrow> event list \<Rightarrow> bool" where
  "input_poll env T h d =
     (case d of
        Orb_check m h' rc u # d1 \<Rightarrow>
          m = T \<and> h' = h \<and> 0 \<le> h \<and> (if rc \<ge> 0 \<and> u then input_transfer env T h d1 else d1 = [])
      | _ \<Rightarrow> False)"

definition input_subscribe :: "'w extern \<Rightarrow> orb_id_t \<Rightarrow> event list \<Rightarrow> bool" where
  "input_subscribe env T d =
     (case d of
        Orb_subscribe m h # d1 \<Rightarrow>
          m = T \<and> (if h < 0 then d1 = [PX4_ERR Failed_to_subscribe] else input_poll env T h d1)
      | _ \<Rightarrow> False)"

definition input_bind :: "'w extern \<Rightarrow> orb_id_t \<Rightarrow> event list \<Rightarrow> bool" where
  "input_bind env T d =
     (case d of
        PX4_ERR x # d1 \<Rightarrow> x = Too_many_subscriptions MAX_MESSAGES \<and> d1 = []
      | PX4_INFO x # d1 \<Rightarrow> x = Subscribing T \<and> input_subscribe env T d1
      | Orb_check m h rc u # d1 \<Rightarrow> input_poll env T h d
      | _ \<Rightarrow> False)"

definition input_pass :: "'w extern \<Rightarrow> nat \<Rightarrow> event list \<Rightarrow> bool" where
  "input_pass env i d =
     (case d of
        Get_input_id j error m # d1 \<Rightarrow>
          j = i \<and>
          (if error = FFI_SUCCESS then input_bind env m d1
           else d1 = [PX4_ERR (Failed_input_id i (ffi_error_to_string error))])
      | _ \<Rightarrow> False)"

text \<open>
  The output side: after the topic query the update query; after a pending update the
  size check and the read; after a read that succeeds with the declared size the
  publication (of a bound topic, of a topic advertised in this pass, or the capacity
  error); a failed read and a read of another length end the pass with their error.
\<close>

definition output_first_publish :: "orb_id_t \<Rightarrow> orb_advert_t \<Rightarrow> event list \<Rightarrow> bool" where
  "output_first_publish T h d =
     (case d of
        Orb_publish m h' bytes rc # d1 \<Rightarrow> m = T \<and> h' = h \<and> d1 = []
      | _ \<Rightarrow> False)"

definition output_advertise :: "orb_id_t \<Rightarrow> event list \<Rightarrow> bool" where
  "output_advertise T d =
     (case d of
        Orb_advertise m bytes h # d1 \<Rightarrow>
          m = T \<and>
          (if h = 0 then d1 = [PX4_ERR Failed_to_advertise] else output_first_publish T h d1)
      | _ \<Rightarrow> False)"

definition output_publish :: "orb_id_t \<Rightarrow> event list \<Rightarrow> bool" where
  "output_publish T d =
     (case d of
        Orb_publish m h bytes rc # d1 \<Rightarrow> m = T \<and> d1 = []
      | PX4_INFO x # d1 \<Rightarrow> x = Advertising T \<and> output_advertise T d1
      | PX4_ERR x # d1 \<Rightarrow> x = Too_many_publications MAX_MESSAGES \<and> d1 = []
      | _ \<Rightarrow> False)"

definition output_transfer :: "'w extern \<Rightarrow> orb_id_t \<Rightarrow> event list \<Rightarrow> bool" where
  "output_transfer env T d =
     (if o_size env T > MAX_MESSAGE_SIZE
      then d = [PX4_ERR (Size_exceeds_max (o_size env T) MAX_MESSAGE_SIZE T)]
      else (case d of
              Read_output m result n # d1 \<Rightarrow>
                m = T \<and>
                (if result = FFI_SUCCESS \<and> n = o_size env T then output_publish T d1
                 else if result \<noteq> FFI_SUCCESS
                 then d1 = [PX4_ERR (Failed_read_output T (ffi_error_to_string result))]
                 else d1 = [PX4_ERR (Size_mismatch T (o_size env T) n)])
            | _ \<Rightarrow> False))"

definition output_poll :: "'w extern \<Rightarrow> orb_id_t \<Rightarrow> event list \<Rightarrow> bool" where
  "output_poll env T d =
     (case d of
        Has_update m error u # d1 \<Rightarrow>
          m = T \<and>
          (if error \<noteq> FFI_SUCCESS
           then d1 = [PX4_ERR (Failed_check_update T (ffi_error_to_string error))]
           else if u then output_transfer env T d1 else d1 = [])
      | _ \<Rightarrow> False)"

definition output_pass :: "'w extern \<Rightarrow> nat \<Rightarrow> event list \<Rightarrow> bool" where
  "output_pass env i d =
     (case d of
        Get_output_id j error m # d1 \<Rightarrow>
          j = i \<and>
          (if error = FFI_SUCCESS then output_poll env m d1
           else d1 = [PX4_ERR (Failed_output_id i (ffi_error_to_string error))])
      | _ \<Rightarrow> False)"

text \<open>
  The trace of a relay cut into its passes: a new pass starts at every topic query.
\<close>

fun input_query :: "event \<Rightarrow> bool" where
  "input_query (Get_input_id i error m) = True"
| "input_query _ = False"

fun output_query :: "event \<Rightarrow> bool" where
  "output_query (Get_output_id i error m) = True"
| "output_query _ = False"

fun passes_of :: "(event \<Rightarrow> bool) \<Rightarrow> event list \<Rightarrow> event list list" where
  "passes_of start [] = []"
| "passes_of start (e # d) =
     (case passes_of start d of
        [] \<Rightarrow> [[e]]
      | p # ps \<Rightarrow> if start (hd p) then [e] # p # ps else (e # p) # ps)"

definition input_passes :: "event list \<Rightarrow> event list list" where
  "input_passes d = passes_of input_query d"

definition output_passes :: "event list \<Rightarrow> event list list" where
  "output_passes d = passes_of output_query d"

definition proper :: "(event \<Rightarrow> bool) \<Rightarrow> event list \<Rightarrow> bool" where
  "proper start p = (p \<noteq> [] \<and> start (hd p) \<and> list_all (\<lambda>e. \<not> start e) (tl p))"

subsection \<open>Polls, refusals and drops, by topic\<close>

fun check_call :: "orb_id_t \<Rightarrow> event \<Rightarrow> bool" where
  "check_call T (Orb_check i h rc updated) = (i = T)"
| "check_call T _ = False"

fun subscribe_refused :: "orb_id_t \<Rightarrow> event \<Rightarrow> bool" where
  "subscribe_refused T (Orb_subscribe i h) = (i = T \<and> h < 0)"
| "subscribe_refused T _ = False"

fun update_query :: "orb_id_t \<Rightarrow> event \<Rightarrow> bool" where
  "update_query T (Has_update i error has_update) = (i = T)"
| "update_query T _ = False"

fun advertise_failed :: "orb_id_t \<Rightarrow> event \<Rightarrow> bool" where
  "advertise_failed T (Orb_advertise i bytes h) = (i = T \<and> h = 0)"
| "advertise_failed T _ = False"

definition ends_with :: "event \<Rightarrow> event list \<Rightarrow> bool" where
  "ends_with e d = (d \<noteq> [] \<and> last d = e)"

text \<open>
  A pass that lists \<open>T\<close> and ends with the capacity error of the pool: the topic was
  answered with the invalid sentinel. The log line of the capacity error names no topic;
  the pass it ends does.
\<close>

definition input_dropped :: "orb_id_t \<Rightarrow> event list \<Rightarrow> bool" where
  "input_dropped T p =
     (case p of
        [] \<Rightarrow> False
      | a # q \<Rightarrow> input_listed T a \<and> ends_with (PX4_ERR (Too_many_subscriptions MAX_MESSAGES)) q)"

definition output_dropped :: "orb_id_t \<Rightarrow> event list \<Rightarrow> bool" where
  "output_dropped T p =
     (case p of
        [] \<Rightarrow> False
      | a # q \<Rightarrow> output_listed T a \<and> ends_with (PX4_ERR (Too_many_publications MAX_MESSAGES)) q)"

definition input_capacity_drops :: "orb_id_t \<Rightarrow> event list \<Rightarrow> nat" where
  "input_capacity_drops T d = length (filter (input_dropped T) (input_passes d))"

definition output_capacity_drops :: "orb_id_t \<Rightarrow> event list \<Rightarrow> nat" where
  "output_capacity_drops T d = length (filter (output_dropped T) (output_passes d))"

subsection \<open>How the counts of a cycle are related\<close>

definition input_relation :: "'w extern \<Rightarrow> orb_id_t \<Rightarrow> event list \<Rightarrow> bool" where
  "input_relation env T d =
     (occurrences (copy_call T) d =
        (if o_size env T \<le> MAX_MESSAGE_SIZE then occurrences (fresh_update T) d else 0) \<and>
      occurrences (oversize_error T) d =
        (if o_size env T \<le> MAX_MESSAGE_SIZE then 0 else occurrences (fresh_update T) d) \<and>
      occurrences (write_call T) d = occurrences (copy_ok T) d \<and>
      occurrences (fresh_update T) d \<le> occurrences (input_listed T) d)"

definition output_relation :: "'w extern \<Rightarrow> orb_id_t \<Rightarrow> event list \<Rightarrow> bool" where
  "output_relation env T d =
     (occurrences (read_call T) d =
        (if o_size env T \<le> MAX_MESSAGE_SIZE then occurrences (pending_update T) d else 0) \<and>
      occurrences (oversize_error T) d =
        (if o_size env T \<le> MAX_MESSAGE_SIZE then 0 else occurrences (pending_update T) d) \<and>
      occurrences (pending_update T) d \<le> occurrences (output_listed T) d \<and>
      occurrences (publish_call T) d \<le> occurrences (read_match (o_size env T) T) d \<and>
      occurrences (advertise_call T) d \<le> occurrences (read_match (o_size env T) T) d \<and>
      occurrences (read_match (o_size env T) T) d \<le>
        occurrences (publish_call T) d + occurrences binding_error d \<and>
      occurrences (mismatch_error T) d = occurrences (read_mismatch (o_size env T) T) d \<and>
      occurrences (read_error T) d = occurrences (read_failed T) d)"

subsection \<open>Sequences of \<open>ensure\<close> calls\<close>

fun ensure_subscriptions ::
  "'w extern \<Rightarrow> orb_id_t list \<Rightarrow> InputManager \<Rightarrow> 'w sys \<Rightarrow> InputManager \<times> 'w sys" where
  "ensure_subscriptions env [] mgr st = (mgr, st)"
| "ensure_subscriptions env (T # Ts) mgr st =
     (case ensure_subscription env T mgr st of (r, mgr1, st1) \<Rightarrow> ensure_subscriptions env Ts mgr1 st1)"

fun ensure_publications ::
  "'w extern \<Rightarrow> (orb_id_t \<times> byte list) list \<Rightarrow> OutputManager \<Rightarrow> 'w sys \<Rightarrow> OutputManager \<times> 'w sys" where
  "ensure_publications env [] mgr st = (mgr, st)"
| "ensure_publications env ((T, initial_data) # Ts) mgr st =
     (case ensure_publication env T initial_data mgr st of (r, mgr1, st1) \<Rightarrow>
        ensure_publications env Ts mgr1 st1)"

text \<open>The topics of the valid bindings of a pool, in slot order.\<close>

definition subscribed :: "InputManager \<Rightarrow> orb_id_t list" where
  "subscribed mgr = map sub_id (filter sub_is_valid (subscriptions mgr))"

definition advertised :: "OutputManager \<Rightarrow> orb_id_t list" where
  "advertised mgr = map pub_id (filter pub_is_valid (publications mgr))"

text \<open>The references that a sequence of \<open>ensure\<close> calls returns, in order.\<close>

fun ensure_subscription_refs ::
  "'w extern \<Rightarrow> orb_id_t list \<Rightarrow> InputManager \<Rightarrow> 'w sys \<Rightarrow> sub_ref list" where
  "ensure_subscription_refs env [] mgr st = []"
| "ensure_subscription_refs env (T # Ts) mgr st =
     (case ensure_subscription env T mgr st of (r, mgr1, st1) \<Rightarrow>
        r # ensure_subscription_refs env Ts mgr1 st1)"

fun ensure_publication_refs ::
  "'w extern \<Rightarrow> (orb_id_t \<times> byte list) list \<Rightarrow> OutputManager \<Rightarrow> 'w sys \<Rightarrow> pub_ref list" where
  "ensure_publication_refs env [] mgr st = []"
| "ensure_publication_refs env ((T, initial_data) # Ps) mgr st =
     (case ensure_publication env T initial_data mgr st of (r, mgr1, st1) \<Rightarrow>
        r # ensure_publication_refs env Ps mgr1 st1)"

fun sub_capacity_error :: "event \<Rightarrow> bool" where
  "sub_capacity_error (PX4_ERR (Too_many_subscriptions n)) = True"
| "sub_capacity_error _ = False"

fun pub_capacity_error :: "event \<Rightarrow> bool" where
  "pub_capacity_error (PX4_ERR (Too_many_publications n)) = True"
| "pub_capacity_error _ = False"

text \<open>
  The topics a relay presented to its pool, in order: the input relay every topic that
  resolved, the output relay every topic whose read succeeded with the declared size.
\<close>

fun input_topics :: "event list \<Rightarrow> orb_id_t list" where
  "input_topics [] = []"
| "input_topics (Get_input_id i error m # d) =
     (if error = FFI_SUCCESS then m # input_topics d else input_topics d)"
| "input_topics (e # d) = input_topics d"

fun output_topics :: "'w extern \<Rightarrow> event list \<Rightarrow> orb_id_t list" where
  "output_topics env [] = []"
| "output_topics env (Read_output m result n # d) =
     (if result = FFI_SUCCESS \<and> n = o_size env m then m # output_topics env d
      else output_topics env d)"
| "output_topics env (e # d) = output_topics env d"

text \<open>A pool whose first \<open>k\<close> slots hold valid bindings and whose other slots are free.\<close>

definition packed_subs :: "OrbSubscription list \<Rightarrow> nat \<Rightarrow> bool" where
  "packed_subs subs k =
     (k \<le> MAX_MESSAGES \<and>
      map sub_is_valid subs = replicate k True @ replicate (MAX_MESSAGES - k) False)"

definition packed_pubs :: "OrbPublication list \<Rightarrow> nat \<Rightarrow> bool" where
  "packed_pubs pubs k =
     (k \<le> MAX_MESSAGES \<and>
      map pub_is_valid pubs = replicate k True @ replicate (MAX_MESSAGES - k) False)"

subsection \<open>A bus and an engine for examples\<close>

text \<open>
  The world is a clock in microseconds. The engine declares the input topic 7 and the
  output topic 8, both of 4 bytes; every topic has an update at every poll and every call
  succeeds. A step of the engine takes 100 microseconds.
\<close>

definition mock_env :: "nat extern" where
  "mock_env =
     \<lparr>ndebug = False,
      o_size = (\<lambda>ident. 4),
      orb_subscribe = (\<lambda>ident w. (int ident, w)),
      orb_unsubscribe = (\<lambda>h w. w),
      orb_check = (\<lambda>h w. ((0, True), w)),
      orb_copy = (\<lambda>ident h w. ((0, [1, 2, 3, 4]), w)),
      orb_advertise = (\<lambda>ident bytes w. (Suc ident, w)),
      orb_publish = (\<lambda>ident h bytes w. (0, w)),
      rust_get_input_message_count = (\<lambda>w. ((FFI_SUCCESS, 1), w)),
      rust_get_input_message_id = (\<lambda>i w. ((FFI_SUCCESS, 7), w)),
      rust_write_input_message = (\<lambda>ident bytes len w. (FFI_SUCCESS, w)),
      rust_get_output_message_count = (\<lambda>w. ((FFI_SUCCESS, 1), w)),
      rust_get_output_message_id = (\<lambda>i w. ((FFI_SUCCESS, 8), w)),
      rust_output_message_has_update = (\<lambda>ident w. ((FFI_SUCCESS, True), w)),
      rust_read_output_message = (\<lambda>ident capacity w. ((FFI_SUCCESS, 4, [5, 6, 7, 8]), w)),
      hrt_absolute_time = (\<lambda>w. (of_nat w, w)),
      app_interface_update = (\<lambda>t w. w + 100),
      parameter_update_sub_updated = (\<lambda>w. (False, w)),
      parameter_update_sub_copy = (\<lambda>w. w),
      updateParams = (\<lambda>w. w),
      px4_usleep = (\<lambda>usec w. w + unat usec)\<rparr>"

definition sys0 :: "nat sys" where
  "sys0 = \<lparr>world = 0, trace = []\<rparr>"

definition subscribe_fails_env :: "nat extern" where
  "subscribe_fails_env = mock_env\<lparr>orb_subscribe := (\<lambda>ident w. (- 1, w))\<rparr>"

definition oversize_env :: "nat extern" where
  "oversize_env = mock_env\<lparr>o_size := (\<lambda>ident. 2000)\<rparr>"

definition short_read_env :: "nat extern" where
  "short_read_env =
     mock_env\<lparr>o_size := (\<lambda>ident. 8),
              rust_read_output_message := (\<lambda>ident capacity w. ((FFI_SUCCESS, 6, [5, 6, 7, 8, 9, 10]), w))\<rparr>"

definition failed_read_env :: "nat extern" where
  "failed_read_env =
     mock_env\<lparr>o_size := (\<lambda>ident. 8),
              rust_read_output_message := (\<lambda>ident capacity w. ((FFI_NULL_ARGUMENT, 6, []), w))\<rparr>"

definition seventeen_env :: "nat extern" where
  "seventeen_env =
     mock_env\<lparr>rust_get_input_message_count := (\<lambda>w. ((FFI_SUCCESS, 17), w)),
              rust_get_input_message_id := (\<lambda>i w. ((FFI_SUCCESS, 100 + i), w)),
              rust_get_output_message_count := (\<lambda>w. ((FFI_SUCCESS, 17), w)),
              rust_get_output_message_id := (\<lambda>i w. ((FFI_SUCCESS, 200 + i), w))\<rparr>"


text \<open>The engine that declares 17 topics on each side, with assertions compiled out.\<close>

definition seventeen_ndebug_env :: "nat extern" where
  "seventeen_ndebug_env = seventeen_env\<lparr>ndebug := True\<rparr>"

text \<open>The events of a run that started with an empty trace.\<close>

fun events_of :: "abort + 'm \<times> 'w sys \<Rightarrow> event list" where
  "events_of (Inr (mgr, st)) = trace st"
| "events_of (Inl a) = []"

text \<open>The manager a run returned.\<close>

fun pool_of :: "abort + 'm \<times> 'w sys \<Rightarrow> 'm option" where
  "pool_of (Inr (mgr, st)) = Some mgr"
| "pool_of (Inl a) = None"

text \<open>Pools with all 16 slots bound, to the topics 100 to 115.\<close>

definition full_input_manager :: InputManager where
  "full_input_manager =
     \<lparr>in_buffer = replicate MAX_MESSAGE_SIZE 0,
      subscriptions = map (\<lambda>k. \<lparr>sub_id = 100 + k, sub_handle = int k\<rparr>) [0..<MAX_MESSAGES]\<rparr>"

definition full_output_manager :: OutputManager where
  "full_output_manager =
     \<lparr>out_buffer = replicate MAX_MESSAGE_SIZE 0,
      publications = map (\<lambda>k. \<lparr>pub_id = 100 + k, pub_handle = Suc k\<rparr>) [0..<MAX_MESSAGES]\<rparr>"


text \<open>An engine whose step takes 10001 microseconds.\<close>

definition overrun_env :: "nat extern" where
  "overrun_env = mock_env\<lparr>app_interface_update := (\<lambda>t w. w + 10001)\<rparr>"

text \<open>An engine that lists topic 7 on both sides.\<close>

definition both_sides_env :: "nat extern" where
  "both_sides_env = mock_env\<lparr>rust_get_output_message_id := (\<lambda>i w. ((FFI_SUCCESS, 7), w))\<rparr>"



section \<open>Properties\<close>

declare find_subscription.simps [simp del] find_empty_sub.simps [simp del]
  find_publication.simps [simp del] find_empty_pub.simps [simp del]
  input_loop.simps [simp del] output_loop.simps [simp del]

subsection \<open>Traces\<close>

lemma occurrences_Nil [simp]: "occurrences P [] = 0"
  by (simp add: occurrences_def)

lemma occurrences_Cons [simp]:
  "occurrences P (e # tr) = (if P e then Suc (occurrences P tr) else occurrences P tr)"
  by (simp add: occurrences_def)

lemma occurrences_append [simp]:
  "occurrences P (a @ b) = occurrences P a + occurrences P b"
  by (simp add: occurrences_def)

lemma emitted_append: "trace st' = trace st @ d \<Longrightarrow> emitted st st' = d"
  by (simp add: emitted_def)

lemma call_trace: "call f st = (r, st') \<Longrightarrow> trace st' = trace st"
  by (auto simp: call_def split: prod.splits)

lemma input_indices_append [simp]: "input_indices (a @ b) = input_indices a @ input_indices b"
  by (induction a rule: input_indices.induct) simp_all

lemma output_indices_append [simp]: "output_indices (a @ b) = output_indices a @ output_indices b"
  by (induction a rule: output_indices.induct) simp_all

lemma InputManager_init_length: "length (subscriptions InputManager_init) = MAX_MESSAGES"
  by (simp add: InputManager_init_def)

lemma OutputManager_init_length: "length (publications OutputManager_init) = MAX_MESSAGES"
  by (simp add: OutputManager_init_def)

subsection \<open>The two scans of a pool\<close>

lemma find_subscription_Some:
  "find_subscription subs ident i = Some k \<Longrightarrow>
     i \<le> k \<and> k < MAX_MESSAGES \<and> sub_is_valid (subs ! k) \<and> sub_id (subs ! k) = ident"
proof (induction subs ident i rule: find_subscription.induct)
  case (1 subs ident i)
  then show ?case
    by (subst (asm) (2) find_subscription.simps) (auto split: if_splits)
qed

lemma find_subscription_None:
  "find_subscription subs ident i = None \<Longrightarrow> i \<le> j \<Longrightarrow> j < MAX_MESSAGES \<Longrightarrow>
     \<not> (sub_is_valid (subs ! j) \<and> sub_id (subs ! j) = ident)"
proof (induction subs ident i rule: find_subscription.induct)
  case (1 subs ident i)
  then show ?case
    by (subst (asm) (2) find_subscription.simps)
       (auto split: if_splits simp: le_Suc_eq dest: le_neq_implies_less)
qed

lemma find_empty_sub_Some:
  "find_empty_sub subs i = Some k \<Longrightarrow> i \<le> k \<and> k < MAX_MESSAGES \<and> \<not> sub_is_valid (subs ! k)"
proof (induction subs i rule: find_empty_sub.induct)
  case (1 subs i)
  then show ?case
    by (subst (asm) (2) find_empty_sub.simps) (auto split: if_splits)
qed

lemma find_empty_sub_None:
  "find_empty_sub subs i = None \<Longrightarrow> i \<le> j \<Longrightarrow> j < MAX_MESSAGES \<Longrightarrow> sub_is_valid (subs ! j)"
proof (induction subs i rule: find_empty_sub.induct)
  case (1 subs i)
  then show ?case
    by (subst (asm) (2) find_empty_sub.simps)
       (auto split: if_splits simp: le_Suc_eq dest: le_neq_implies_less)
qed

lemma find_publication_Some:
  "find_publication pubs ident i = Some k \<Longrightarrow>
     i \<le> k \<and> k < MAX_MESSAGES \<and> pub_is_valid (pubs ! k) \<and> pub_id (pubs ! k) = ident"
proof (induction pubs ident i rule: find_publication.induct)
  case (1 pubs ident i)
  then show ?case
    by (subst (asm) (2) find_publication.simps) (auto split: if_splits)
qed

lemma find_publication_None:
  "find_publication pubs ident i = None \<Longrightarrow> i \<le> j \<Longrightarrow> j < MAX_MESSAGES \<Longrightarrow>
     \<not> (pub_is_valid (pubs ! j) \<and> pub_id (pubs ! j) = ident)"
proof (induction pubs ident i rule: find_publication.induct)
  case (1 pubs ident i)
  then show ?case
    by (subst (asm) (2) find_publication.simps)
       (auto split: if_splits simp: le_Suc_eq dest: le_neq_implies_less)
qed

lemma find_empty_pub_Some:
  "find_empty_pub pubs i = Some k \<Longrightarrow> i \<le> k \<and> k < MAX_MESSAGES \<and> \<not> pub_is_valid (pubs ! k)"
proof (induction pubs i rule: find_empty_pub.induct)
  case (1 pubs i)
  then show ?case
    by (subst (asm) (2) find_empty_pub.simps) (auto split: if_splits)
qed

lemma find_empty_pub_None:
  "find_empty_pub pubs i = None \<Longrightarrow> i \<le> j \<Longrightarrow> j < MAX_MESSAGES \<Longrightarrow> pub_is_valid (pubs ! j)"
proof (induction pubs i rule: find_empty_pub.induct)
  case (1 pubs i)
  then show ?case
    by (subst (asm) (2) find_empty_pub.simps)
       (auto split: if_splits simp: le_Suc_eq dest: le_neq_implies_less)
qed

subsection \<open>What \<open>ensure_subscription\<close> and \<open>ensure_publication\<close> do\<close>

lemma ensure_subscription_found:
  "find_subscription (subscriptions mgr) T 0 = Some k \<Longrightarrow>
     ensure_subscription env T mgr st = (Sub_slot k, mgr, st)"
  by (simp add: ensure_subscription_def)

lemma ensure_subscription_full:
  "find_subscription (subscriptions mgr) T 0 = None \<Longrightarrow> find_empty_sub (subscriptions mgr) 0 = None \<Longrightarrow>
     ensure_subscription env T mgr st =
       (Invalid_sub, mgr, st\<lparr>trace := trace st @ [PX4_ERR (Too_many_subscriptions MAX_MESSAGES)]\<rparr>)"
  by (simp add: ensure_subscription_def emit_def)

lemma ensure_subscription_new:
  assumes "find_subscription (subscriptions mgr) T 0 = None"
    and k: "find_empty_sub (subscriptions mgr) 0 = Some k"
    and h: "orb_subscribe env T (world st) = (h, w)"
  shows "ensure_subscription env T mgr st =
       (Sub_slot k,
        mgr\<lparr>subscriptions := (subscriptions mgr)[k := \<lparr>sub_id = T, sub_handle = (if h < 0 then - 1 else h)\<rparr>]\<rparr>,
        st\<lparr>world := w,
           trace := trace st @ [PX4_INFO (Subscribing T), Orb_subscribe T h] @
                    (if h < 0 then [PX4_ERR Failed_to_subscribe] else [])\<rparr>)"
proof -
  from find_empty_sub_Some [OF k] have "\<not> sub_handle (subscriptions mgr ! k) \<ge> 0"
    by (simp add: sub_is_valid_def)
  with assms show ?thesis
    by (simp add: ensure_subscription_def OrbSubscription_new_def sub_move_assign_def
        sub_destroy_def call_def emit_def Let_def)
qed

lemma ensure_subscription_events:
  assumes len: "length (subscriptions mgr) = MAX_MESSAGES"
    and ens: "ensure_subscription env T mgr st = (r, mgr', st')"
  shows "length (subscriptions mgr') = MAX_MESSAGES \<and>
         (sub_is_valid (sub_at mgr' r) \<longrightarrow> sub_id (sub_at mgr' r) = T) \<and>
         (\<exists>d. trace st' = trace st @ d \<and> ensure_sub_events T d)"
proof (cases "find_subscription (subscriptions mgr) T 0")
  case (Some k)
  with ens find_subscription_Some [OF Some] len show ?thesis
    by (auto simp: ensure_subscription_found ensure_sub_events_def)
next
  case None
  show ?thesis
  proof (cases "find_empty_sub (subscriptions mgr) 0")
    case inner: None
    with ens None len show ?thesis
      by (auto simp: ensure_subscription_full ensure_sub_events_def OrbSubscription_default_def
          sub_is_valid_def)
  next
    case (Some k)
    obtain h w where h: "orb_subscribe env T (world st) = (h, w)"
      by (metis prod.exhaust)
    from find_empty_sub_Some [OF Some] len have "k < length (subscriptions mgr)"
      by simp
    with ens len show ?thesis
      unfolding ensure_subscription_new [OF None Some h]
      by (auto simp: ensure_sub_events_def)
  qed
qed

lemma ensure_publication_found:
  "find_publication (publications mgr) T 0 = Some k \<Longrightarrow>
     ensure_publication env T initial_data mgr st = (Pub_slot k, mgr, st)"
  by (simp add: ensure_publication_def)

lemma ensure_publication_full:
  "find_publication (publications mgr) T 0 = None \<Longrightarrow> find_empty_pub (publications mgr) 0 = None \<Longrightarrow>
     ensure_publication env T initial_data mgr st =
       (Invalid_pub, mgr, st\<lparr>trace := trace st @ [PX4_ERR (Too_many_publications MAX_MESSAGES)]\<rparr>)"
  by (simp add: ensure_publication_def emit_def)

lemma ensure_publication_new:
  assumes "find_publication (publications mgr) T 0 = None"
    and k: "find_empty_pub (publications mgr) 0 = Some k"
    and h: "orb_advertise env T initial_data (world st) = (h, w)"
  shows "ensure_publication env T initial_data mgr st =
       (Pub_slot k,
        mgr\<lparr>publications := (publications mgr)[k := \<lparr>pub_id = T, pub_handle = h\<rparr>]\<rparr>,
        st\<lparr>world := w,
           trace := trace st @
                    [PX4_INFO (Advertising T), Orb_advertise T (take (o_size env T) initial_data) h] @
                    (if h = 0 then [PX4_ERR Failed_to_advertise] else [])\<rparr>)"
  using assms
  by (simp add: ensure_publication_def OrbPublication_new_def call_def emit_def Let_def)

subsection \<open>The events of one pass of the input loop\<close>

lemma check_updated_cases:
  assumes "check_updated env s st = (u, st')"
  shows "(\<not> u \<and> \<not> sub_is_valid s \<and> st' = st) \<or>
         (sub_is_valid s \<and>
          (\<exists>rc upd. trace st' = trace st @ [Orb_check (sub_id s) (sub_handle s) rc upd] \<and>
                     u = (rc \<ge> 0 \<and> upd)))"
  using assms
  by (auto simp: check_updated_def call_def emit_def split: if_splits prod.splits)

lemma copy_data_valid:
  assumes "sub_is_valid s" "copy_data env s buffer st = ((c, buffer'), st')"
  shows "\<exists>rc. trace st' = trace st @ [Orb_copy (sub_id s) (sub_handle s) rc] \<and> c = (rc \<ge> 0)"
  using assms
  by (auto simp: copy_data_def call_def emit_def split: if_splits prod.splits)

lemma input_iteration_trace:
  assumes len: "length (subscriptions mgr) = MAX_MESSAGES"
    and it: "input_iteration env i mgr st = (mgr', st')"
  shows "length (subscriptions mgr') = MAX_MESSAGES \<and>
         (\<exists>d. trace st' = trace st @ d \<and> input_iteration_events env i d)"
proof -
  obtain error m st0 where c: "call (rust_get_input_message_id env i) st = ((error, m), st0)"
    by (metis prod.exhaust)
  have t0: "trace st0 = trace st"
    using call_trace [OF c] .
  define st1 where "st1 = emit (Get_input_id i error m) st0"
  have t1: "trace st1 = trace st @ [Get_input_id i error m]"
    by (simp add: st1_def emit_def t0)
  show ?thesis
  proof (cases "error = FFI_SUCCESS")
    case False
    with it c have "mgr' = mgr" "st' = emit (PX4_ERR (Failed_input_id i (ffi_error_to_string error))) st1"
      by (auto simp: input_iteration_def Let_def st1_def)
    with False t1 len show ?thesis
      by (auto simp: input_iteration_events_def emit_def)
  next
    case True
    obtain r mgr1 st2 where e: "ensure_subscription env m mgr st1 = (r, mgr1, st2)"
      by (metis prod.exhaust)
    from ensure_subscription_events [OF len e] obtain d1 where
      len1: "length (subscriptions mgr1) = MAX_MESSAGES"
      and idr: "sub_is_valid (sub_at mgr1 r) \<Longrightarrow> sub_id (sub_at mgr1 r) = m"
      and t2: "trace st2 = trace st1 @ d1" and d1: "ensure_sub_events m d1"
      by blast
    obtain u st3 where ch: "check_updated env (sub_at mgr1 r) st2 = (u, st3)"
      by (metis prod.exhaust)
    have rest: "(if u then
           let message_size = o_size env m in
           if message_size > MAX_MESSAGE_SIZE
           then (mgr1, emit (PX4_ERR (Size_exceeds_max message_size MAX_MESSAGE_SIZE m)) st3)
           else
             (case copy_data env (sub_at mgr1 r) (in_buffer mgr1) st3 of ((copied, buffer), st4) \<Rightarrow>
              let mgr2 = mgr1\<lparr>in_buffer := buffer\<rparr> in
              if copied then
                (case call (rust_write_input_message env m buffer message_size) st4 of
                   (result, st5) \<Rightarrow>
                     let st6 = emit (Write_input m (take message_size buffer) message_size result) st5 in
                     if result \<noteq> FFI_SUCCESS
                     then (mgr2, emit (PX4_ERR (Failed_write_input m (ffi_error_to_string result))) st6)
                     else (mgr2, st6))
              else (mgr2, st4))
         else (mgr1, st3)) = (mgr', st')"
      using it c True e ch unfolding input_iteration_def st1_def by simp
    have "length (subscriptions mgr') = MAX_MESSAGES \<and>
          (\<exists>d2. trace st' = trace st2 @ d2 \<and> input_relay_events env m d2)"
    proof (cases u)
      case False
      with rest have "mgr' = mgr1" "st' = st3" by auto
      with check_updated_cases [OF ch] False len1 idr show ?thesis
        by (auto simp: input_relay_events_def)
    next
      case u: True
      with check_updated_cases [OF ch] obtain rc where
        v: "sub_is_valid (sub_at mgr1 r)"
        and t3: "trace st3 = trace st2 @ [Orb_check (sub_id (sub_at mgr1 r)) (sub_handle (sub_at mgr1 r)) rc True]"
        and rc: "rc \<ge> 0"
        by auto
      note idm = idr [OF v]
      show ?thesis
      proof (cases "o_size env m > MAX_MESSAGE_SIZE")
        case True
        with rest u have "mgr' = mgr1"
          "st' = emit (PX4_ERR (Size_exceeds_max (o_size env m) MAX_MESSAGE_SIZE m)) st3"
          by (auto simp: Let_def)
        with t3 rc True len1 idm show ?thesis
          by (auto simp: input_relay_events_def emit_def)
      next
        case small: False
        obtain copied buffer st4 where
          cp: "copy_data env (sub_at mgr1 r) (in_buffer mgr1) st3 = ((copied, buffer), st4)"
          by (metis prod.exhaust)
        from copy_data_valid [OF v cp] obtain rc2 where
          t4: "trace st4 = trace st3 @ [Orb_copy (sub_id (sub_at mgr1 r)) (sub_handle (sub_at mgr1 r)) rc2]"
          and copied: "copied = (rc2 \<ge> 0)"
          by blast
        show ?thesis
        proof (cases copied)
          case False
          with rest u small cp have "mgr' = mgr1\<lparr>in_buffer := buffer\<rparr>" "st' = st4"
            by (auto simp: Let_def)
          with t4 t3 rc small len1 idm False copied show ?thesis
            by (auto simp: input_relay_events_def)
        next
          case True
          obtain result st5 where
            w: "call (rust_write_input_message env m buffer (o_size env m)) st4 = (result, st5)"
            by (metis prod.exhaust)
          have t5: "trace st5 = trace st4" using call_trace [OF w] .
          from rest u small cp True w have mgr': "mgr' = mgr1\<lparr>in_buffer := buffer\<rparr>"
            and st': "st' = (if result \<noteq> FFI_SUCCESS
                     then emit (PX4_ERR (Failed_write_input m (ffi_error_to_string result)))
                            (emit (Write_input m (take (o_size env m) buffer) (o_size env m) result) st5)
                     else emit (Write_input m (take (o_size env m) buffer) (o_size env m) result) st5)"
            by (auto simp: Let_def split: if_splits)
          from st' t5 t4 t3 rc small idm True copied mgr' len1 show ?thesis
            by (cases "result = FFI_SUCCESS") (auto simp: input_relay_events_def emit_def)
        qed
      qed
    qed
    then obtain d2 where len': "length (subscriptions mgr') = MAX_MESSAGES"
      and t': "trace st' = trace st2 @ d2" and d2: "input_relay_events env m d2"
      by blast
    from d1 d2 have "input_iteration_events env i (Get_input_id i FFI_SUCCESS m # d1 @ d2)"
      unfolding input_iteration_events_def by blast
    moreover from t' t2 t1 True have "trace st' = trace st @ Get_input_id i FFI_SUCCESS m # d1 @ d2"
      by simp
    ultimately show ?thesis
      using len' by blast
  qed
qed

text \<open>
  A property of the events of every pass that holds of no events and of two runs of
  events put end to end holds of the events of the whole loop.
\<close>

lemma input_loop_events:
  assumes step: "\<And>i d. input_iteration_events env i d \<Longrightarrow> P d"
    and nil: "P []"
    and app: "\<And>a b. P a \<Longrightarrow> P b \<Longrightarrow> P (a @ b)"
    and len: "length (subscriptions mgr) = MAX_MESSAGES"
    and run: "input_loop env i n mgr st = (mgr', st')"
  shows "length (subscriptions mgr') = MAX_MESSAGES \<and> (\<exists>d. trace st' = trace st @ d \<and> P d)"
  using len run
proof (induction "n - i" arbitrary: i mgr st)
  case 0
  then show ?case
    using nil by (simp add: input_loop.simps)
next
  case (Suc k)
  then have less: "i < n" by simp
  obtain mgr1 st1 where it: "input_iteration env i mgr st = (mgr1, st1)"
    by (metis prod.exhaust)
  from input_iteration_trace [OF Suc.prems(1) it] obtain d1 where
    len1: "length (subscriptions mgr1) = MAX_MESSAGES"
    and d1: "trace st1 = trace st @ d1" "input_iteration_events env i d1"
    by blast
  from Suc.prems(2) less it have run1: "input_loop env (i + 1) n mgr1 st1 = (mgr', st')"
    by (simp add: input_loop.simps)
  from Suc.hyps(2) have "k = n - (i + 1)" by simp
  from Suc.hyps(1) [OF this len1 run1] obtain d2 where
    "length (subscriptions mgr') = MAX_MESSAGES" "trace st' = trace st1 @ d2" "P d2"
    by blast
  with d1 app step [OF d1(2)] show ?case
    by auto
qed

lemma process_input_messages_events:
  assumes step: "\<And>i d. input_iteration_events env i d \<Longrightarrow> P d"
    and nil: "P []"
    and app: "\<And>a b. P a \<Longrightarrow> P b \<Longrightarrow> P (a @ b)"
    and err: "\<And>s. P [PX4_ERR (Failed_input_count s)]"
    and len: "length (subscriptions mgr) = MAX_MESSAGES"
    and run: "process_input_messages env mgr st = Inr (mgr', st')"
  shows "length (subscriptions mgr') = MAX_MESSAGES \<and> P (emitted st st')"
proof -
  obtain error n st1 where c: "call (rust_get_input_message_count env) st = ((error, n), st1)"
    by (metis prod.exhaust)
  have t1: "trace st1 = trace st"
    using call_trace [OF c] .
  show ?thesis
  proof (cases "error = FFI_SUCCESS")
    case False
    with run c have "mgr' = mgr" "st' = emit (PX4_ERR (Failed_input_count (ffi_error_to_string error))) st1"
      by (auto simp: process_input_messages_def)
    with t1 len err show ?thesis
      by (simp add: emit_def emitted_def)
  next
    case True
    with run c have loop: "input_loop env 0 n mgr st1 = (mgr', st')"
      by (auto simp: process_input_messages_def split: if_splits)
    have "length (subscriptions mgr') = MAX_MESSAGES \<and> (\<exists>d. trace st' = trace st1 @ d \<and> P d)"
      using step nil app len loop by (rule input_loop_events [where P = P])
    with t1 show ?thesis
      by (auto simp: emitted_def)
  qed
qed

subsection \<open>The events of one pass of the output loop\<close>

lemma publish_valid:
  assumes "pub_is_valid p" "publish env p bytes st = (ok, st')"
  shows "\<exists>rc. trace st' =
           trace st @ [Orb_publish (pub_id p) (pub_handle p) (take (o_size env (pub_id p)) bytes) rc]"
  using assms
  by (auto simp: publish_def call_def emit_def split: if_splits prod.splits)

lemma ensure_then_publish:
  assumes len: "length (publications mgr) = MAX_MESSAGES"
    and ens: "ensure_publication env T initial_data mgr st = (pub, mgr2, st6)"
    and fin: "st' = (if pub_is_valid (pub_at mgr2 pub)
                     then snd (publish env (pub_at mgr2 pub) bytes st6) else st6)"
  shows "length (publications mgr2) = MAX_MESSAGES \<and>
         (\<exists>d. trace st' = trace st @ d \<and> publish_events T d)"
proof (cases "find_publication (publications mgr) T 0")
  case (Some k)
  with ens have e: "pub = Pub_slot k" "mgr2 = mgr" "st6 = st"
    by (simp_all add: ensure_publication_found)
  from find_publication_Some [OF Some] have v: "pub_is_valid (publications mgr ! k)"
    and i: "pub_id (publications mgr ! k) = T"
    by simp_all
  obtain ok st7 where p: "publish env (publications mgr ! k) bytes st = (ok, st7)"
    by (metis prod.exhaust)
  from publish_valid [OF v p] i fin e v p len show ?thesis
    by (auto simp: publish_events_def)
next
  case None
  show ?thesis
  proof (cases "find_empty_pub (publications mgr) 0")
    case inner: None
    with ens None fin len show ?thesis
      by (auto simp: ensure_publication_full publish_events_def OrbPublication_default_def
          pub_is_valid_def)
  next
    case (Some k)
    obtain h w where h: "orb_advertise env T initial_data (world st) = (h, w)"
      by (metis prod.exhaust)
    from find_empty_pub_Some [OF Some] len have k: "k < length (publications mgr)"
      by simp
    note e = ens [unfolded ensure_publication_new [OF None Some h]]
    show ?thesis
    proof (cases "h = 0")
      case True
      with e fin k len show ?thesis
        by (auto simp: publish_events_def pub_is_valid_def)
    next
      case False
      from e k have at: "pub_at mgr2 pub = \<lparr>pub_id = T, pub_handle = h\<rparr>"
        by auto
      with False have v: "pub_is_valid (pub_at mgr2 pub)"
        by (simp add: pub_is_valid_def)
      obtain ok st7 where p: "publish env (pub_at mgr2 pub) bytes st6 = (ok, st7)"
        by (metis prod.exhaust)
      from publish_valid [OF v p] at fin v p e False len show ?thesis
        by (auto simp: publish_events_def)
    qed
  qed
qed

lemma output_iteration_trace:
  assumes len: "length (publications mgr) = MAX_MESSAGES"
    and it: "output_iteration env i mgr st = (mgr', st')"
  shows "length (publications mgr') = MAX_MESSAGES \<and>
         (\<exists>d. trace st' = trace st @ d \<and> output_iteration_events env i d)"
proof -
  obtain error m st0 where c: "call (rust_get_output_message_id env i) st = ((error, m), st0)"
    by (metis prod.exhaust)
  define st1 where "st1 = emit (Get_output_id i error m) st0"
  have t1: "trace st1 = trace st @ [Get_output_id i error m]"
    by (simp add: st1_def emit_def call_trace [OF c])
  show ?thesis
  proof (cases "error = FFI_SUCCESS")
    case False
    with it c have "mgr' = mgr" "st' = emit (PX4_ERR (Failed_output_id i (ffi_error_to_string error))) st1"
      by (auto simp: output_iteration_def Let_def st1_def)
    with False t1 len show ?thesis
      by (auto simp: output_iteration_events_def emit_def)
  next
    case True
    obtain error2 has_update st2 where
      h: "call (rust_output_message_has_update env m) st1 = ((error2, has_update), st2)"
      by (metis prod.exhaust)
    define st3 where "st3 = emit (Has_update m error2 has_update) st2"
    have t3: "trace st3 = trace st @ [Get_output_id i FFI_SUCCESS m, Has_update m error2 has_update]"
      using True by (simp add: st3_def emit_def call_trace [OF h] t1)
    have rest: "(if error2 \<noteq> FFI_SUCCESS
         then (mgr, emit (PX4_ERR (Failed_check_update m (ffi_error_to_string error2))) st3)
         else if has_update then
           let message_size = o_size env m in
           if message_size > MAX_MESSAGE_SIZE
           then (mgr, emit (PX4_ERR (Size_exceeds_max message_size MAX_MESSAGE_SIZE m)) st3)
           else
             (case call (rust_read_output_message env m MAX_MESSAGE_SIZE) st3 of
                ((result, bytes_read, bytes), st4) \<Rightarrow>
                  let st5 = emit (Read_output m result bytes_read) st4;
                      mgr1 = mgr\<lparr>out_buffer := store bytes (out_buffer mgr)\<rparr>
                  in
                  if result = FFI_SUCCESS \<and> bytes_read = message_size then
                    (case ensure_publication env m (out_buffer mgr1) mgr1 st5 of
                       (pub, mgr2, st6) \<Rightarrow>
                         if pub_is_valid (pub_at mgr2 pub)
                         then (mgr2, snd (publish env (pub_at mgr2 pub) (out_buffer mgr2) st6))
                         else (mgr2, st6))
                  else if result \<noteq> FFI_SUCCESS
                  then (mgr1, emit (PX4_ERR (Failed_read_output m (ffi_error_to_string result))) st5)
                  else (mgr1, emit (PX4_ERR (Size_mismatch m message_size bytes_read)) st5))
         else (mgr, st3)) = (mgr', st')"
      using it c True h unfolding output_iteration_def st1_def st3_def by (simp add: Let_def)
    show ?thesis
    proof (cases "error2 = FFI_SUCCESS")
      case False
      with rest have "mgr' = mgr" "st' = emit (PX4_ERR (Failed_check_update m (ffi_error_to_string error2))) st3"
        by auto
      with False t3 len show ?thesis
        by (auto simp: output_iteration_events_def emit_def)
    next
      case ok: True
      show ?thesis
      proof (cases has_update)
        case False
        with rest ok have "mgr' = mgr" "st' = st3" by auto
        with False ok t3 len show ?thesis
          by (auto simp: output_iteration_events_def)
      next
        case upd: True
        show ?thesis
        proof (cases "o_size env m > MAX_MESSAGE_SIZE")
          case True
          with rest ok upd have "mgr' = mgr"
            "st' = emit (PX4_ERR (Size_exceeds_max (o_size env m) MAX_MESSAGE_SIZE m)) st3"
            by (auto simp: Let_def)
          with True ok upd t3 len show ?thesis
            by (auto simp: output_iteration_events_def emit_def)
        next
          case small: False
          obtain result n bytes st4 where
            rd: "call (rust_read_output_message env m MAX_MESSAGE_SIZE) st3 = ((result, n, bytes), st4)"
            by (metis prod.exhaust)
          define st5 where "st5 = emit (Read_output m result n) st4"
          define mgr1 where "mgr1 = mgr\<lparr>out_buffer := store bytes (out_buffer mgr)\<rparr>"
          have t5: "trace st5 = trace st @
              [Get_output_id i FFI_SUCCESS m, Has_update m FFI_SUCCESS True, Read_output m result n]"
            using ok upd by (simp add: st5_def emit_def call_trace [OF rd] t3)
          have len1: "length (publications mgr1) = MAX_MESSAGES"
            using len by (simp add: mgr1_def)
          have rest2: "(if result = FFI_SUCCESS \<and> n = o_size env m then
                    (case ensure_publication env m (out_buffer mgr1) mgr1 st5 of
                       (pub, mgr2, st6) \<Rightarrow>
                         if pub_is_valid (pub_at mgr2 pub)
                         then (mgr2, snd (publish env (pub_at mgr2 pub) (out_buffer mgr2) st6))
                         else (mgr2, st6))
                  else if result \<noteq> FFI_SUCCESS
                  then (mgr1, emit (PX4_ERR (Failed_read_output m (ffi_error_to_string result))) st5)
                  else (mgr1, emit (PX4_ERR (Size_mismatch m (o_size env m) n)) st5)) = (mgr', st')"
            using rest ok upd small rd unfolding st5_def mgr1_def by (simp add: Let_def)
          show ?thesis
          proof (cases "result = FFI_SUCCESS")
            case False
            with rest2 have "mgr' = mgr1"
              "st' = emit (PX4_ERR (Failed_read_output m (ffi_error_to_string result))) st5"
              by auto
            with False small t5 len1 show ?thesis
              by (auto simp: output_iteration_events_def emit_def)
          next
            case res: True
            show ?thesis
            proof (cases "n = o_size env m")
              case False
              with rest2 res have "mgr' = mgr1"
                "st' = emit (PX4_ERR (Size_mismatch m (o_size env m) n)) st5"
                by auto
              with False res small t5 len1 show ?thesis
                by (auto simp: output_iteration_events_def emit_def)
            next
              case True
              obtain pub mgr2 st6 where
                e: "ensure_publication env m (out_buffer mgr1) mgr1 st5 = (pub, mgr2, st6)"
                by (metis prod.exhaust)
              from rest2 res True e have mgr': "mgr' = mgr2"
                and st': "st' = (if pub_is_valid (pub_at mgr2 pub)
                     then snd (publish env (pub_at mgr2 pub) (out_buffer mgr2) st6) else st6)"
                by (auto split: if_splits)
              from ensure_then_publish [OF len1 e st'] obtain d1 where
                "length (publications mgr2) = MAX_MESSAGES" "trace st' = trace st5 @ d1"
                "publish_events m d1"
                by blast
              with mgr' t5 res True small show ?thesis
                unfolding output_iteration_events_def by auto
            qed
          qed
        qed
      qed
    qed
  qed
qed

lemma output_loop_events:
  assumes step: "\<And>i d. output_iteration_events env i d \<Longrightarrow> P d"
    and nil: "P []"
    and app: "\<And>a b. P a \<Longrightarrow> P b \<Longrightarrow> P (a @ b)"
    and len: "length (publications mgr) = MAX_MESSAGES"
    and run: "output_loop env i n mgr st = (mgr', st')"
  shows "length (publications mgr') = MAX_MESSAGES \<and> (\<exists>d. trace st' = trace st @ d \<and> P d)"
  using len run
proof (induction "n - i" arbitrary: i mgr st)
  case 0
  then show ?case
    using nil by (simp add: output_loop.simps)
next
  case (Suc k)
  then have less: "i < n" by simp
  obtain mgr1 st1 where it: "output_iteration env i mgr st = (mgr1, st1)"
    by (metis prod.exhaust)
  from output_iteration_trace [OF Suc.prems(1) it] obtain d1 where
    len1: "length (publications mgr1) = MAX_MESSAGES"
    and d1: "trace st1 = trace st @ d1" "output_iteration_events env i d1"
    by blast
  from Suc.prems(2) less it have run1: "output_loop env (i + 1) n mgr1 st1 = (mgr', st')"
    by (simp add: output_loop.simps)
  from Suc.hyps(2) have "k = n - (i + 1)" by simp
  from Suc.hyps(1) [OF this len1 run1] obtain d2 where
    "length (publications mgr') = MAX_MESSAGES" "trace st' = trace st1 @ d2" "P d2"
    by blast
  with d1 app step [OF d1(2)] show ?case
    by auto
qed

lemma process_output_messages_events:
  assumes step: "\<And>i d. output_iteration_events env i d \<Longrightarrow> P d"
    and nil: "P []"
    and app: "\<And>a b. P a \<Longrightarrow> P b \<Longrightarrow> P (a @ b)"
    and err: "\<And>s. P [PX4_ERR (Failed_output_count s)]"
    and len: "length (publications mgr) = MAX_MESSAGES"
    and run: "process_output_messages env mgr st = Inr (mgr', st')"
  shows "length (publications mgr') = MAX_MESSAGES \<and> P (emitted st st')"
proof -
  obtain error n st1 where c: "call (rust_get_output_message_count env) st = ((error, n), st1)"
    by (metis prod.exhaust)
  have t1: "trace st1 = trace st"
    using call_trace [OF c] .
  show ?thesis
  proof (cases "error = FFI_SUCCESS")
    case False
    with run c have "mgr' = mgr" "st' = emit (PX4_ERR (Failed_output_count (ffi_error_to_string error))) st1"
      by (auto simp: process_output_messages_def)
    with t1 len err show ?thesis
      by (simp add: emit_def emitted_def)
  next
    case True
    with run c have loop: "output_loop env 0 n mgr st1 = (mgr', st')"
      by (auto simp: process_output_messages_def split: if_splits)
    have "length (publications mgr') = MAX_MESSAGES \<and> (\<exists>d. trace st' = trace st1 @ d \<and> P d)"
      using step nil app len loop by (rule output_loop_events [where P = P])
    with t1 show ?thesis
      by (auto simp: emitted_def)
  qed
qed

subsection \<open>Counting the events of a cycle\<close>

text \<open>
  The scan of the pool logs and subscribes; it makes no update check, copy or write.
\<close>

lemma ensure_sub_events_occurrences:
  assumes "ensure_sub_events m d" "\<And>x. \<not> P (PX4_ERR x)" "\<And>x. \<not> P (PX4_INFO x)"
    "\<And>x y. \<not> P (Orb_subscribe x y)"
  shows "occurrences P d = 0"
  using assms by (auto simp: ensure_sub_events_def)

lemma input_relation_Nil: "input_relation env T []"
  by (simp add: input_relation_def)

lemma input_relation_append:
  "input_relation env T a \<Longrightarrow> input_relation env T b \<Longrightarrow> input_relation env T (a @ b)"
  by (auto simp: input_relation_def)

lemma input_relation_count_error: "input_relation env T [PX4_ERR (Failed_input_count s)]"
  by (simp add: input_relation_def)

lemma input_iteration_events_relation:
  assumes "input_iteration_events env i d"
  shows "input_relation env T d"
  using assms unfolding input_iteration_events_def
proof (elim disjE exE conjE)
  fix error m
  assume "d = [Get_input_id i error m, PX4_ERR (Failed_input_id i (ffi_error_to_string error))]"
  then show ?thesis by (simp add: input_relation_def)
next
  fix m d1 d2
  assume a: "ensure_sub_events m d1" "input_relay_events env m d2" "d = Get_input_id i FFI_SUCCESS m # d1 @ d2"
  have z: "occurrences (copy_call T) d1 = 0" "occurrences (fresh_update T) d1 = 0"
    "occurrences (copy_ok T) d1 = 0" "occurrences (write_call T) d1 = 0"
    "occurrences (input_listed T) d1 = 0"
    by (rule ensure_sub_events_occurrences [OF a(1)]; simp)+
  have o: "occurrences (oversize_error T) d1 = 0"
    using a(1) by (auto simp: ensure_sub_events_def)
  from a(2) show ?thesis
    unfolding a(3) input_relay_events_def
    by (elim disjE exE conjE) (auto simp: input_relation_def z o)
qed

lemma process_input_messages_relation:
  assumes "length (subscriptions mgr) = MAX_MESSAGES"
    and "process_input_messages env mgr st = Inr (mgr', st')"
  shows "input_relation env T (emitted st st')"
  using process_input_messages_events [where P = "input_relation env T",
      OF input_iteration_events_relation input_relation_Nil input_relation_append
        input_relation_count_error assms]
  by simp

lemma output_relation_Nil: "output_relation env T []"
  by (simp add: output_relation_def)

lemma output_relation_append:
  "output_relation env T a \<Longrightarrow> output_relation env T b \<Longrightarrow> output_relation env T (a @ b)"
  by (auto simp: output_relation_def)

lemma output_relation_count_error: "output_relation env T [PX4_ERR (Failed_output_count s)]"
  by (simp add: output_relation_def)

lemma output_iteration_events_relation:
  assumes "output_iteration_events env i d"
  shows "output_relation env T d"
  using assms unfolding output_iteration_events_def publish_events_def
  by (elim disjE exE conjE) (auto simp: output_relation_def)

lemma process_output_messages_relation:
  assumes "length (publications mgr) = MAX_MESSAGES"
    and "process_output_messages env mgr st = Inr (mgr', st')"
  shows "output_relation env T (emitted st st')"
  using process_output_messages_events [where P = "output_relation env T",
      OF output_iteration_events_relation output_relation_Nil output_relation_append
        output_relation_count_error assms]
  by simp

lemma copy_ok_le_copy_call: "occurrences (copy_ok T) d \<le> occurrences (copy_call T) d"
proof (induction d)
  case Nil
  then show ?case by simp
next
  case (Cons e d)
  then show ?case by (cases e) auto
qed

lemma read_match_le_read_call: "occurrences (read_match n T) d \<le> occurrences (read_call T) d"
proof (induction d)
  case Nil
  then show ?case by simp
next
  case (Cons e d)
  then show ?case by (cases e) auto
qed

subsection \<open>The indices a loop visits\<close>

lemma input_iteration_events_indices:
  assumes "input_iteration_events env i d"
  shows "input_indices d = [i]"
proof -
  have e: "input_indices d1 = []" if "ensure_sub_events m d1" for m d1
    using that by (auto simp: ensure_sub_events_def)
  have r: "input_indices d2 = []" if "input_relay_events env m d2" for m d2
    using that by (auto simp: input_relay_events_def)
  from assms show ?thesis
    by (auto simp: input_iteration_events_def e r)
qed

lemma input_loop_indices:
  assumes "length (subscriptions mgr) = MAX_MESSAGES"
    and "input_loop env i n mgr st = (mgr', st')"
  shows "\<exists>d. trace st' = trace st @ d \<and> input_indices d = [i..<n]"
  using assms
proof (induction "n - i" arbitrary: i mgr st)
  case 0
  then show ?case
    by (simp add: input_loop.simps)
next
  case (Suc k)
  then have less: "i < n" by simp
  obtain mgr1 st1 where it: "input_iteration env i mgr st = (mgr1, st1)"
    by (metis prod.exhaust)
  from input_iteration_trace [OF Suc.prems(1) it] obtain d1 where
    len1: "length (subscriptions mgr1) = MAX_MESSAGES"
    and d1: "trace st1 = trace st @ d1" "input_iteration_events env i d1"
    by blast
  from Suc.prems(2) less it have run1: "input_loop env (i + 1) n mgr1 st1 = (mgr', st')"
    by (simp add: input_loop.simps)
  from Suc.hyps(2) have "k = n - (i + 1)" by simp
  from Suc.hyps(1) [OF this len1 run1] obtain d2 where
    d2: "trace st' = trace st1 @ d2" "input_indices d2 = [i + 1..<n]"
    by blast
  from d1 d2 less input_iteration_events_indices [OF d1(2)]
  have "trace st' = trace st @ d1 @ d2 \<and> input_indices (d1 @ d2) = [i..<n]"
    by (simp add: upt_conv_Cons)
  then show ?case
    by blast
qed

lemma output_iteration_events_indices:
  assumes "output_iteration_events env i d"
  shows "output_indices d = [i]"
  using assms
  by (auto simp: output_iteration_events_def publish_events_def)

lemma output_loop_indices:
  assumes "length (publications mgr) = MAX_MESSAGES"
    and "output_loop env i n mgr st = (mgr', st')"
  shows "\<exists>d. trace st' = trace st @ d \<and> output_indices d = [i..<n]"
  using assms
proof (induction "n - i" arbitrary: i mgr st)
  case 0
  then show ?case
    by (simp add: output_loop.simps)
next
  case (Suc k)
  then have less: "i < n" by simp
  obtain mgr1 st1 where it: "output_iteration env i mgr st = (mgr1, st1)"
    by (metis prod.exhaust)
  from output_iteration_trace [OF Suc.prems(1) it] obtain d1 where
    len1: "length (publications mgr1) = MAX_MESSAGES"
    and d1: "trace st1 = trace st @ d1" "output_iteration_events env i d1"
    by blast
  from Suc.prems(2) less it have run1: "output_loop env (i + 1) n mgr1 st1 = (mgr', st')"
    by (simp add: output_loop.simps)
  from Suc.hyps(2) have "k = n - (i + 1)" by simp
  from Suc.hyps(1) [OF this len1 run1] obtain d2 where
    d2: "trace st' = trace st1 @ d2" "output_indices d2 = [i + 1..<n]"
    by blast
  from d1 d2 less output_iteration_events_indices [OF d1(2)]
  have "trace st' = trace st @ d1 @ d2 \<and> output_indices (d1 @ d2) = [i..<n]"
    by (simp add: upt_conv_Cons)
  then show ?case
    by blast
qed



lemma process_input_messages_indices:
  assumes len: "length (subscriptions mgr) = MAX_MESSAGES"
    and run: "process_input_messages env mgr st = Inr (mgr', st')"
    and c: "rust_get_input_message_count env (world st) = ((error, n), w)"
  shows "input_indices (emitted st st') = (if error = FFI_SUCCESS then [0..<n] else [])"
proof (cases "error = FFI_SUCCESS")
  case False
  with run c show ?thesis
    by (auto simp: process_input_messages_def call_def emit_def emitted_def)
next
  case True
  with run c have "input_loop env 0 n mgr (st\<lparr>world := w\<rparr>) = (mgr', st')"
    by (auto simp: process_input_messages_def call_def split: if_splits)
  from input_loop_indices [OF len this] True show ?thesis
    by (auto simp: emitted_def)
qed

lemma process_output_messages_indices:
  assumes len: "length (publications mgr) = MAX_MESSAGES"
    and run: "process_output_messages env mgr st = Inr (mgr', st')"
    and c: "rust_get_output_message_count env (world st) = ((error, n), w)"
  shows "output_indices (emitted st st') = (if error = FFI_SUCCESS then [0..<n] else [])"
proof (cases "error = FFI_SUCCESS")
  case False
  with run c show ?thesis
    by (auto simp: process_output_messages_def call_def emit_def emitted_def)
next
  case True
  with run c have "output_loop env 0 n mgr (st\<lparr>world := w\<rparr>) = (mgr', st')"
    by (auto simp: process_output_messages_def call_def split: if_splits)
  from output_loop_indices [OF len this] True show ?thesis
    by (auto simp: emitted_def)
qed


subsection \<open>Every pass is complete\<close>

lemmas pass_defs = input_pass_def input_bind_def input_subscribe_def input_poll_def
  input_transfer_def input_write_def output_pass_def output_poll_def output_transfer_def
  output_publish_def output_advertise_def output_first_publish_def

lemma ensure_subscription_binding:
  assumes len: "length (subscriptions mgr) = MAX_MESSAGES"
    and ens: "ensure_subscription env T mgr st = (r, mgr', st')"
  shows "length (subscriptions mgr') = MAX_MESSAGES \<and> in_buffer mgr' = in_buffer mgr \<and>
         (\<exists>d. trace st' = trace st @ d \<and>
            ((d = [] \<and> sub_is_valid (sub_at mgr' r) \<and> sub_id (sub_at mgr' r) = T) \<or>
             (d = [PX4_ERR (Too_many_subscriptions MAX_MESSAGES)] \<and> \<not> sub_is_valid (sub_at mgr' r)) \<or>
             (\<exists>h. 0 \<le> h \<and> d = [PX4_INFO (Subscribing T), Orb_subscribe T h] \<and>
                  sub_at mgr' r = \<lparr>sub_id = T, sub_handle = h\<rparr>) \<or>
             (\<exists>h. h < 0 \<and> d = [PX4_INFO (Subscribing T), Orb_subscribe T h, PX4_ERR Failed_to_subscribe] \<and>
                  \<not> sub_is_valid (sub_at mgr' r))))"
proof (cases "find_subscription (subscriptions mgr) T 0")
  case (Some k)
  with ens find_subscription_Some [OF Some] len show ?thesis
    by (auto simp: ensure_subscription_found)
next
  case None
  show ?thesis
  proof (cases "find_empty_sub (subscriptions mgr) 0")
    case inner: None
    with ens None len show ?thesis
      by (auto simp: ensure_subscription_full OrbSubscription_default_def sub_is_valid_def)
  next
    case (Some k)
    obtain h w where h: "orb_subscribe env T (world st) = (h, w)"
      by (metis prod.exhaust)
    from find_empty_sub_Some [OF Some] len have "k < length (subscriptions mgr)"
      by simp
    with ens len show ?thesis
      unfolding ensure_subscription_new [OF None Some h]
      by (cases "h < 0") (auto simp: sub_is_valid_def)
  qed
qed

lemma input_relay_poll:
  assumes rest: "(case check_updated env s st2 of (updated, st3) \<Rightarrow>
         if updated then
           let message_size = o_size env m in
           if message_size > MAX_MESSAGE_SIZE
           then (mgr1, emit (PX4_ERR (Size_exceeds_max message_size MAX_MESSAGE_SIZE m)) st3)
           else
             (case copy_data env s (in_buffer mgr1) st3 of ((copied, buffer), st4) \<Rightarrow>
              let mgr2 = mgr1\<lparr>in_buffer := buffer\<rparr> in
              if copied then
                (case call (rust_write_input_message env m buffer message_size) st4 of
                   (result, st5) \<Rightarrow>
                     let st6 = emit (Write_input m (take message_size buffer) message_size result) st5 in
                     if result \<noteq> FFI_SUCCESS
                     then (mgr2, emit (PX4_ERR (Failed_write_input m (ffi_error_to_string result))) st6)
                     else (mgr2, st6))
              else (mgr2, st4))
         else (mgr1, st3)) = (mgr', st')"
  shows "subscriptions mgr' = subscriptions mgr1"
    and "\<not> sub_is_valid s \<Longrightarrow> st' = st2 \<and> mgr' = mgr1"
    and "sub_is_valid s \<Longrightarrow> sub_id s = m \<Longrightarrow>
           \<exists>d. trace st' = trace st2 @ d \<and> input_poll env m (sub_handle s) d"
  using rest
  by (auto simp: check_updated_def copy_data_def call_def emit_def Let_def input_poll_def
      input_transfer_def input_write_def sub_is_valid_def split: if_splits prod.splits)

lemma input_iteration_pass:
  assumes len: "length (subscriptions mgr) = MAX_MESSAGES"
    and it: "input_iteration env i mgr st = (mgr', st')"
  shows "length (subscriptions mgr') = MAX_MESSAGES \<and>
         (\<exists>d. trace st' = trace st @ d \<and> input_pass env i d)"
proof -
  obtain error m st0 where c: "call (rust_get_input_message_id env i) st = ((error, m), st0)"
    by (metis prod.exhaust)
  define st1 where "st1 = emit (Get_input_id i error m) st0"
  have t1: "trace st1 = trace st @ [Get_input_id i error m]"
    by (simp add: st1_def emit_def call_trace [OF c])
  show ?thesis
  proof (cases "error = FFI_SUCCESS")
    case False
    with it c have "mgr' = mgr" "st' = emit (PX4_ERR (Failed_input_id i (ffi_error_to_string error))) st1"
      by (auto simp: input_iteration_def Let_def st1_def)
    with False t1 len show ?thesis
      by (simp add: input_pass_def emit_def)
  next
    case True
    obtain r mgr1 st2 where e: "ensure_subscription env m mgr st1 = (r, mgr1, st2)"
      by (metis prod.exhaust)
    from ensure_subscription_binding [OF len e] obtain d1 where
      len1: "length (subscriptions mgr1) = MAX_MESSAGES"
      and t2: "trace st2 = trace st1 @ d1"
      and d1: "(d1 = [] \<and> sub_is_valid (sub_at mgr1 r) \<and> sub_id (sub_at mgr1 r) = m) \<or>
             (d1 = [PX4_ERR (Too_many_subscriptions MAX_MESSAGES)] \<and> \<not> sub_is_valid (sub_at mgr1 r)) \<or>
             (\<exists>h. 0 \<le> h \<and> d1 = [PX4_INFO (Subscribing m), Orb_subscribe m h] \<and>
                  sub_at mgr1 r = \<lparr>sub_id = m, sub_handle = h\<rparr>) \<or>
             (\<exists>h. h < 0 \<and> d1 = [PX4_INFO (Subscribing m), Orb_subscribe m h, PX4_ERR Failed_to_subscribe] \<and>
                  \<not> sub_is_valid (sub_at mgr1 r))"
      by blast
    have rest: "(case check_updated env (sub_at mgr1 r) st2 of (updated, st3) \<Rightarrow>
         if updated then
           let message_size = o_size env m in
           if message_size > MAX_MESSAGE_SIZE
           then (mgr1, emit (PX4_ERR (Size_exceeds_max message_size MAX_MESSAGE_SIZE m)) st3)
           else
             (case copy_data env (sub_at mgr1 r) (in_buffer mgr1) st3 of ((copied, buffer), st4) \<Rightarrow>
              let mgr2 = mgr1\<lparr>in_buffer := buffer\<rparr> in
              if copied then
                (case call (rust_write_input_message env m buffer message_size) st4 of
                   (result, st5) \<Rightarrow>
                     let st6 = emit (Write_input m (take message_size buffer) message_size result) st5 in
                     if result \<noteq> FFI_SUCCESS
                     then (mgr2, emit (PX4_ERR (Failed_write_input m (ffi_error_to_string result))) st6)
                     else (mgr2, st6))
              else (mgr2, st4))
         else (mgr1, st3)) = (mgr', st')"
      using it c True e unfolding input_iteration_def st1_def by simp
    note r = input_relay_poll [OF rest]
    have len': "length (subscriptions mgr') = MAX_MESSAGES"
      using r(1) len1 by simp
    have "\<exists>d. trace st' = trace st1 @ d \<and> input_bind env m d"
    proof (cases "sub_is_valid (sub_at mgr1 r)")
      case False
      with r(2) have "st' = st2" by simp
      with d1 t2 False show ?thesis
        by (auto simp: input_bind_def input_subscribe_def sub_is_valid_def)
    next
      case v: True
      from d1 v have idm: "sub_id (sub_at mgr1 r) = m"
        by auto
      from r(3) [OF v idm] obtain d2 where
        t': "trace st' = trace st2 @ d2" and d2: "input_poll env m (sub_handle (sub_at mgr1 r)) d2"
        by blast
      from d1 v consider "d1 = []"
        | h where "0 \<le> h" "d1 = [PX4_INFO (Subscribing m), Orb_subscribe m h]"
            "sub_at mgr1 r = \<lparr>sub_id = m, sub_handle = h\<rparr>"
        by blast
      then show ?thesis
      proof cases
        case 1
        with t' t2 d2 show ?thesis
          by (auto simp: input_bind_def input_poll_def split: list.splits event.splits)
      next
        case 2
        with t' t2 d2 show ?thesis
          by (auto simp: input_bind_def input_subscribe_def)
      qed
    qed
    with t1 True len' show ?thesis
      by (auto simp: input_pass_def)
  qed
qed

lemma output_iteration_events_pass:
  assumes "output_iteration_events env i d"
  shows "output_pass env i d"
  using assms unfolding output_iteration_events_def publish_events_def
  by (auto simp: output_pass_def output_poll_def output_transfer_def output_publish_def
      output_advertise_def output_first_publish_def)

lemma output_iteration_pass:
  assumes len: "length (publications mgr) = MAX_MESSAGES"
    and it: "output_iteration env i mgr st = (mgr', st')"
  shows "length (publications mgr') = MAX_MESSAGES \<and>
         (\<exists>d. trace st' = trace st @ d \<and> output_pass env i d)"
  using output_iteration_trace [OF len it] output_iteration_events_pass by blast

lemma input_write_cases:
  assumes "input_write env T d"
  obtains bytes where "d = [Write_input T bytes (o_size env T) FFI_SUCCESS]"
  | bytes result where "result \<noteq> FFI_SUCCESS"
      "d = [Write_input T bytes (o_size env T) result,
            PX4_ERR (Failed_write_input T (ffi_error_to_string result))]"
  using assms unfolding input_write_def
  by (auto split: list.splits event.splits if_splits)

lemma input_transfer_cases:
  assumes "input_transfer env T h d"
  obtains "o_size env T > MAX_MESSAGE_SIZE"
      "d = [PX4_ERR (Size_exceeds_max (o_size env T) MAX_MESSAGE_SIZE T)]"
  | rc where "o_size env T \<le> MAX_MESSAGE_SIZE" "rc < 0" "d = [Orb_copy T h rc]"
  | rc d1 where "o_size env T \<le> MAX_MESSAGE_SIZE" "0 \<le> rc" "d = Orb_copy T h rc # d1"
      "input_write env T d1"
  using assms unfolding input_transfer_def
  by (auto split: list.splits event.splits if_splits)

lemma input_poll_cases:
  assumes "input_poll env T h d"
  obtains rc u where "0 \<le> h" "\<not> (0 \<le> rc \<and> u)" "d = [Orb_check T h rc u]"
  | rc d1 where "0 \<le> h" "0 \<le> rc" "d = Orb_check T h rc True # d1" "input_transfer env T h d1"
  using assms unfolding input_poll_def
  by (auto split: list.splits event.splits if_splits)

lemma input_bind_cases:
  assumes "input_bind env T d"
  obtains "d = [PX4_ERR (Too_many_subscriptions MAX_MESSAGES)]"
  | h where "h < 0" "d = [PX4_INFO (Subscribing T), Orb_subscribe T h, PX4_ERR Failed_to_subscribe]"
  | h d1 where "0 \<le> h" "d = PX4_INFO (Subscribing T) # Orb_subscribe T h # d1" "input_poll env T h d1"
  | h where "input_poll env T h d"
  using assms unfolding input_bind_def input_subscribe_def
  by (auto split: list.splits event.splits if_splits)

lemma input_pass_cases:
  assumes "input_pass env i d"
  obtains error m where "error \<noteq> FFI_SUCCESS"
      "d = [Get_input_id i error m, PX4_ERR (Failed_input_id i (ffi_error_to_string error))]"
  | m d1 where "d = Get_input_id i FFI_SUCCESS m # d1" "input_bind env m d1"
  using assms unfolding input_pass_def
  by (auto split: list.splits event.splits if_splits)

lemma output_first_publish_cases:
  assumes "output_first_publish T h d"
  obtains bytes rc where "d = [Orb_publish T h bytes rc]"
  using assms unfolding output_first_publish_def
  by (auto split: list.splits event.splits if_splits)

lemma output_advertise_cases:
  assumes "output_advertise T d"
  obtains bytes where "d = [Orb_advertise T bytes 0, PX4_ERR Failed_to_advertise]"
  | bytes h bytes2 rc where "h \<noteq> 0" "d = [Orb_advertise T bytes h, Orb_publish T h bytes2 rc]"
proof -
  from assms obtain bytes h d1 where d: "d = Orb_advertise T bytes h # d1"
    and r: "if h = 0 then d1 = [PX4_ERR Failed_to_advertise] else output_first_publish T h d1"
    unfolding output_advertise_def by (auto split: list.splits event.splits)
  show thesis
  proof (cases "h = 0")
    case True
    with d r that(1) show ?thesis by simp
  next
    case False
    with r have "output_first_publish T h d1" by simp
    then obtain bytes2 rc where "d1 = [Orb_publish T h bytes2 rc]"
      by (rule output_first_publish_cases)
    with d False that(2) show ?thesis by simp
  qed
qed

lemma output_publish_cases:
  assumes "output_publish T d"
  obtains h bytes rc where "d = [Orb_publish T h bytes rc]"
  | "d = [PX4_ERR (Too_many_publications MAX_MESSAGES)]"
  | d1 where "d = PX4_INFO (Advertising T) # d1" "output_advertise T d1"
  using assms unfolding output_publish_def
  by (auto split: list.splits event.splits if_splits)

lemma output_transfer_cases:
  assumes "output_transfer env T d"
  obtains "o_size env T > MAX_MESSAGE_SIZE"
      "d = [PX4_ERR (Size_exceeds_max (o_size env T) MAX_MESSAGE_SIZE T)]"
  | result n where "o_size env T \<le> MAX_MESSAGE_SIZE" "result \<noteq> FFI_SUCCESS"
      "d = [Read_output T result n, PX4_ERR (Failed_read_output T (ffi_error_to_string result))]"
  | n where "o_size env T \<le> MAX_MESSAGE_SIZE" "n \<noteq> o_size env T"
      "d = [Read_output T FFI_SUCCESS n, PX4_ERR (Size_mismatch T (o_size env T) n)]"
  | d1 where "o_size env T \<le> MAX_MESSAGE_SIZE" "d = Read_output T FFI_SUCCESS (o_size env T) # d1"
      "output_publish T d1"
  using assms unfolding output_transfer_def
  by (auto split: list.splits event.splits if_splits)

lemma output_poll_cases:
  assumes "output_poll env T d"
  obtains error u where "error \<noteq> FFI_SUCCESS"
      "d = [Has_update T error u, PX4_ERR (Failed_check_update T (ffi_error_to_string error))]"
  | "d = [Has_update T FFI_SUCCESS False]"
  | d1 where "d = Has_update T FFI_SUCCESS True # d1" "output_transfer env T d1"
  using assms unfolding output_poll_def
  by (auto split: list.splits event.splits if_splits)

lemma output_pass_cases:
  assumes "output_pass env i d"
  obtains error m where "error \<noteq> FFI_SUCCESS"
      "d = [Get_output_id i error m, PX4_ERR (Failed_output_id i (ffi_error_to_string error))]"
  | m d1 where "d = Get_output_id i FFI_SUCCESS m # d1" "output_poll env m d1"
  using assms unfolding output_pass_def
  by (auto split: list.splits event.splits if_splits)

text \<open>A pass starts with its topic query and holds no other.\<close>

lemma input_write_quiet: "input_write env T d \<Longrightarrow> list_all (\<lambda>e. \<not> input_query e) d"
  by (erule input_write_cases) simp_all

lemma input_transfer_quiet: "input_transfer env T h d \<Longrightarrow> list_all (\<lambda>e. \<not> input_query e) d"
  by (erule input_transfer_cases) (simp_all add: input_write_quiet)

lemma input_poll_quiet: "input_poll env T h d \<Longrightarrow> list_all (\<lambda>e. \<not> input_query e) d"
  by (erule input_poll_cases) (simp_all add: input_transfer_quiet)

lemma input_bind_quiet: "input_bind env T d \<Longrightarrow> list_all (\<lambda>e. \<not> input_query e) d"
  by (erule input_bind_cases) (simp_all add: input_poll_quiet)

lemma input_pass_proper:
  assumes "input_pass env i d"
  shows "proper input_query d"
  using assms by (rule input_pass_cases) (simp_all add: proper_def input_bind_quiet)

lemma output_advertise_quiet: "output_advertise T d \<Longrightarrow> list_all (\<lambda>e. \<not> output_query e) d"
  by (erule output_advertise_cases) simp_all

lemma output_publish_quiet: "output_publish T d \<Longrightarrow> list_all (\<lambda>e. \<not> output_query e) d"
  by (erule output_publish_cases) (simp_all add: output_advertise_quiet)

lemma output_transfer_quiet: "output_transfer env T d \<Longrightarrow> list_all (\<lambda>e. \<not> output_query e) d"
  by (erule output_transfer_cases) (simp_all add: output_publish_quiet)

lemma output_poll_quiet: "output_poll env T d \<Longrightarrow> list_all (\<lambda>e. \<not> output_query e) d"
  by (erule output_poll_cases) (simp_all add: output_transfer_quiet)

lemma output_pass_proper:
  assumes "output_pass env i d"
  shows "proper output_query d"
  using assms by (rule output_pass_cases) (simp_all add: proper_def output_poll_quiet)

lemma passes_of_concat_Nil [simp]: "passes_of start d = [] \<longleftrightarrow> d = []"
  by (cases d) (auto split: list.splits)

lemma passes_of_tail:
  assumes "list_all (\<lambda>e. \<not> start e) q" "ps = [] \<or> start (hd (hd ps))" "\<forall>p\<in>set ps. p \<noteq> []"
    "passes_of start (concat ps) = ps"
  shows "passes_of start (e # q @ concat ps) = (e # q) # ps"
  using assms
proof (induction q arbitrary: e)
  case Nil
  then show ?case
    by (cases ps) auto
next
  case (Cons a q)
  from Cons.prems have "passes_of start (a # q @ concat ps) = (a # q) # ps"
    by (intro Cons.IH) auto
  with Cons.prems show ?case
    by simp
qed

lemma passes_of_concat:
  assumes "\<forall>p\<in>set ps. proper start p"
  shows "passes_of start (concat ps) = ps"
  using assms
proof (induction ps)
  case Nil
  then show ?case by simp
next
  case (Cons p ps)
  then have ih: "passes_of start (concat ps) = ps" by simp
  from Cons.prems obtain e q where p: "p = e # q" "start e" "list_all (\<lambda>e. \<not> start e) q"
    by (cases p) (auto simp: proper_def)
  have a: "ps = [] \<or> start (hd (hd ps))"
    using Cons.prems by (cases ps) (auto simp: proper_def)
  have b: "\<forall>p\<in>set ps. p \<noteq> []"
    using Cons.prems by (auto simp: proper_def)
  from passes_of_tail [OF p(3) a b ih] p show ?case by simp
qed

lemma concat_passes_of [simp]: "concat (passes_of start d) = d"
  by (induction d) (auto split: list.splits)

lemma list_all2_passes:
  assumes "list_all2 (\<lambda>i p. proper start p) is ps"
  shows "passes_of start (concat ps) = ps"
  using assms by (intro passes_of_concat) (auto simp: list_all2_conv_all_nth in_set_conv_nth)

text \<open>
  Induction over a loop: a relation between the pass counter, the manager and the events
  so far that every pass preserves holds when the loop ends.
\<close>

lemma input_loop_rule:
  assumes step: "\<And>i mgr st mgr' st' a d. i < n \<Longrightarrow> length (subscriptions mgr) = MAX_MESSAGES \<Longrightarrow>
      R i mgr a \<Longrightarrow> input_iteration env i mgr st = (mgr', st') \<Longrightarrow> trace st' = trace st @ d \<Longrightarrow>
      input_pass env i d \<Longrightarrow> R (Suc i) mgr' (a @ d)"
    and len: "length (subscriptions mgr) = MAX_MESSAGES"
    and init: "R i mgr a"
    and le: "i \<le> n"
    and run: "input_loop env i n mgr st = (mgr', st')"
  shows "length (subscriptions mgr') = MAX_MESSAGES \<and> (\<exists>d. trace st' = trace st @ d \<and> R n mgr' (a @ d))"
  using len init le run
proof (induction "n - i" arbitrary: i mgr st a)
  case 0
  then show ?case
    by (simp add: input_loop.simps)
next
  case (Suc k)
  then have less: "i < n" by simp
  obtain mgr1 st1 where it: "input_iteration env i mgr st = (mgr1, st1)"
    by (metis prod.exhaust)
  from input_iteration_pass [OF Suc.prems(1) it] obtain d1 where
    len1: "length (subscriptions mgr1) = MAX_MESSAGES"
    and d1: "trace st1 = trace st @ d1" "input_pass env i d1"
    by blast
  from step [OF less Suc.prems(1,2) it d1] have r1: "R (Suc i) mgr1 (a @ d1)" .
  from Suc.prems(4) less it have run1: "input_loop env (Suc i) n mgr1 st1 = (mgr', st')"
    by (simp add: input_loop.simps)
  from Suc.hyps(2) have "k = n - Suc i" by simp
  from Suc.hyps(1) [OF this len1 r1 _ run1] less obtain d2 where
    "length (subscriptions mgr') = MAX_MESSAGES" "trace st' = trace st1 @ d2" "R n mgr' ((a @ d1) @ d2)"
    by auto
  with d1 show ?case
    by auto
qed

lemma input_loop_passes:
  assumes len: "length (subscriptions mgr) = MAX_MESSAGES"
    and run: "input_loop env 0 n mgr st = (mgr', st')"
  shows "\<exists>ps. trace st' = trace st @ concat ps \<and> list_all2 (input_pass env) [0..<n] ps"
proof -
  define R where "R = (\<lambda>i (mgr :: InputManager) a. \<exists>ps. a = concat ps \<and> list_all2 (input_pass env) [0..<i] ps)"
  have "length (subscriptions mgr') = MAX_MESSAGES \<and> (\<exists>d. trace st' = trace st @ d \<and> R n mgr' ([] @ d))"
  proof (rule input_loop_rule [where R = R, OF _ len _ _ run])
    show "R 0 mgr []"
      by (simp add: R_def)
    show "0 \<le> n" by simp
    fix i mgr st mgr' st' a d
    assume "R i mgr a" "input_pass env i d"
    then obtain ps where "a = concat ps" "list_all2 (input_pass env) [0..<i] ps"
      by (auto simp: R_def)
    with \<open>input_pass env i d\<close> have "a @ d = concat (ps @ [d])"
      "list_all2 (input_pass env) [0..<Suc i] (ps @ [d])"
      by (auto intro: list_all2_appendI)
    then show "R (Suc i) mgr' (a @ d)"
      unfolding R_def by blast
  qed
  then show ?thesis
    by (auto simp: R_def)
qed

lemma process_input_messages_passes:
  assumes len: "length (subscriptions mgr) = MAX_MESSAGES"
    and run: "process_input_messages env mgr st = Inr (mgr', st')"
    and c: "rust_get_input_message_count env (world st) = ((error, n), w)"
  shows "if error = FFI_SUCCESS
         then list_all2 (input_pass env) [0..<n] (input_passes (emitted st st'))
         else emitted st st' = [PX4_ERR (Failed_input_count (ffi_error_to_string error))]"
proof (cases "error = FFI_SUCCESS")
  case False
  with run c show ?thesis
    by (auto simp: process_input_messages_def call_def emit_def emitted_def)
next
  case True
  with run c have loop: "input_loop env 0 n mgr (st\<lparr>world := w\<rparr>) = (mgr', st')"
    by (auto simp: process_input_messages_def call_def split: if_splits)
  from input_loop_passes [OF len loop] obtain ps where
    ps: "trace st' = trace st @ concat ps" "list_all2 (input_pass env) [0..<n] ps"
    by auto
  from ps(2) have "list_all2 (\<lambda>i p. proper input_query p) [0..<n] ps"
    by (rule list_all2_mono) (auto intro: input_pass_proper)
  then have "input_passes (concat ps) = ps"
    unfolding input_passes_def by (rule list_all2_passes)
  with ps True show ?thesis
    by (simp add: emitted_def)
qed

lemma output_loop_rule:
  assumes step: "\<And>i mgr st mgr' st' a d. i < n \<Longrightarrow> length (publications mgr) = MAX_MESSAGES \<Longrightarrow>
      R i mgr a \<Longrightarrow> output_iteration env i mgr st = (mgr', st') \<Longrightarrow> trace st' = trace st @ d \<Longrightarrow>
      output_pass env i d \<Longrightarrow> R (Suc i) mgr' (a @ d)"
    and len: "length (publications mgr) = MAX_MESSAGES"
    and init: "R i mgr a"
    and le: "i \<le> n"
    and run: "output_loop env i n mgr st = (mgr', st')"
  shows "length (publications mgr') = MAX_MESSAGES \<and> (\<exists>d. trace st' = trace st @ d \<and> R n mgr' (a @ d))"
  using len init le run
proof (induction "n - i" arbitrary: i mgr st a)
  case 0
  then show ?case
    by (simp add: output_loop.simps)
next
  case (Suc k)
  then have less: "i < n" by simp
  obtain mgr1 st1 where it: "output_iteration env i mgr st = (mgr1, st1)"
    by (metis prod.exhaust)
  from output_iteration_pass [OF Suc.prems(1) it] obtain d1 where
    len1: "length (publications mgr1) = MAX_MESSAGES"
    and d1: "trace st1 = trace st @ d1" "output_pass env i d1"
    by blast
  from step [OF less Suc.prems(1,2) it d1] have r1: "R (Suc i) mgr1 (a @ d1)" .
  from Suc.prems(4) less it have run1: "output_loop env (Suc i) n mgr1 st1 = (mgr', st')"
    by (simp add: output_loop.simps)
  from Suc.hyps(2) have "k = n - Suc i" by simp
  from Suc.hyps(1) [OF this len1 r1 _ run1] less obtain d2 where
    "length (publications mgr') = MAX_MESSAGES" "trace st' = trace st1 @ d2" "R n mgr' ((a @ d1) @ d2)"
    by auto
  with d1 show ?case
    by auto
qed

lemma output_loop_passes:
  assumes len: "length (publications mgr) = MAX_MESSAGES"
    and run: "output_loop env 0 n mgr st = (mgr', st')"
  shows "\<exists>ps. trace st' = trace st @ concat ps \<and> list_all2 (output_pass env) [0..<n] ps"
proof -
  define R where "R = (\<lambda>i (mgr :: OutputManager) a. \<exists>ps. a = concat ps \<and> list_all2 (output_pass env) [0..<i] ps)"
  have "length (publications mgr') = MAX_MESSAGES \<and> (\<exists>d. trace st' = trace st @ d \<and> R n mgr' ([] @ d))"
  proof (rule output_loop_rule [where R = R, OF _ len _ _ run])
    show "R 0 mgr []"
      by (simp add: R_def)
    show "0 \<le> n" by simp
    fix i mgr st mgr' st' a d
    assume "R i mgr a" "output_pass env i d"
    then obtain ps where "a = concat ps" "list_all2 (output_pass env) [0..<i] ps"
      by (auto simp: R_def)
    with \<open>output_pass env i d\<close> have "a @ d = concat (ps @ [d])"
      "list_all2 (output_pass env) [0..<Suc i] (ps @ [d])"
      by (auto intro: list_all2_appendI)
    then show "R (Suc i) mgr' (a @ d)"
      unfolding R_def by blast
  qed
  then show ?thesis
    by (auto simp: R_def)
qed

lemma process_output_messages_passes:
  assumes len: "length (publications mgr) = MAX_MESSAGES"
    and run: "process_output_messages env mgr st = Inr (mgr', st')"
    and c: "rust_get_output_message_count env (world st) = ((error, n), w)"
  shows "if error = FFI_SUCCESS
         then list_all2 (output_pass env) [0..<n] (output_passes (emitted st st'))
         else emitted st st' = [PX4_ERR (Failed_output_count (ffi_error_to_string error))]"
proof (cases "error = FFI_SUCCESS")
  case False
  with run c show ?thesis
    by (auto simp: process_output_messages_def call_def emit_def emitted_def)
next
  case True
  with run c have loop: "output_loop env 0 n mgr (st\<lparr>world := w\<rparr>) = (mgr', st')"
    by (auto simp: process_output_messages_def call_def split: if_splits)
  from output_loop_passes [OF len loop] obtain ps where
    ps: "trace st' = trace st @ concat ps" "list_all2 (output_pass env) [0..<n] ps"
    by auto
  from ps(2) have "list_all2 (\<lambda>i p. proper output_query p) [0..<n] ps"
    by (rule list_all2_mono) (auto intro: output_pass_proper)
  then have "output_passes (concat ps) = ps"
    unfolding output_passes_def by (rule list_all2_passes)
  with ps True show ?thesis
    by (simp add: emitted_def)
qed

subsection \<open>Every listed topic is polled\<close>

lemma ends_with_Cons [simp]: "ends_with e (a # d) = (if d = [] then a = e else ends_with e d)"
  by (simp add: ends_with_def)

lemma ends_with_Nil [simp]: "\<not> ends_with e []"
  by (simp add: ends_with_def)

lemma input_write_polls:
  assumes "input_write env m d"
  shows "occurrences (check_call T) d = 0 \<and> occurrences (subscribe_refused T) d = 0 \<and>
         occurrences (input_listed T) d = 0 \<and>
         \<not> ends_with (PX4_ERR (Too_many_subscriptions MAX_MESSAGES)) d"
  using assms by (rule input_write_cases) simp_all

lemma input_transfer_polls:
  assumes "input_transfer env m h d"
  shows "occurrences (check_call T) d = 0 \<and> occurrences (subscribe_refused T) d = 0 \<and>
         occurrences (input_listed T) d = 0 \<and> d \<noteq> [] \<and>
         \<not> ends_with (PX4_ERR (Too_many_subscriptions MAX_MESSAGES)) d"
  using assms by (rule input_transfer_cases) (auto dest: input_write_polls [where T = T])

lemma input_poll_polls:
  assumes "input_poll env m h d"
  shows "occurrences (check_call T) d = (if m = T then 1 else 0) \<and>
         occurrences (subscribe_refused T) d = 0 \<and> occurrences (input_listed T) d = 0 \<and>
         \<not> ends_with (PX4_ERR (Too_many_subscriptions MAX_MESSAGES)) d"
  using assms by (rule input_poll_cases) (auto dest: input_transfer_polls [where T = T])

lemma input_bind_polls:
  assumes "input_bind env m d"
  shows "occurrences (check_call T) d + occurrences (subscribe_refused T) d +
           (if m = T \<and> ends_with (PX4_ERR (Too_many_subscriptions MAX_MESSAGES)) d then 1 else 0) =
           (if m = T then 1 else 0) \<and>
         occurrences (input_listed T) d = 0"
  using assms
proof (rule input_bind_cases)
  fix h d1
  assume "0 \<le> h" "d = PX4_INFO (Subscribing m) # Orb_subscribe m h # d1" "input_poll env m h d1"
  with input_poll_polls [of env m h d1 T] show ?thesis
    by (cases "d1 = []") auto
next
  fix h
  assume "input_poll env m h d"
  with input_poll_polls [of env m h d T] show ?thesis
    by auto
qed auto

lemma input_pass_polls:
  assumes "input_pass env i p"
  shows "occurrences (check_call T) p + occurrences (subscribe_refused T) p +
           (if input_dropped T p then 1 else 0) = occurrences (input_listed T) p"
  using assms
proof (rule input_pass_cases)
  fix m d1
  assume "p = Get_input_id i FFI_SUCCESS m # d1" "input_bind env m d1"
  with input_bind_polls [of env m d1 T] show ?thesis
    by (auto simp: input_dropped_def)
qed (auto simp: input_dropped_def)

lemma input_passes_polls:
  assumes "list_all2 (input_pass env) is ps"
  shows "occurrences (check_call T) (concat ps) + occurrences (subscribe_refused T) (concat ps) +
           length (filter (input_dropped T) ps) = occurrences (input_listed T) (concat ps)"
  using assms
proof (induction rule: list_all2_induct)
  case Nil
  then show ?case by simp
next
  case (Cons i p "is" ps)
  with input_pass_polls [OF Cons.hyps(1), of T] show ?case
    by auto
qed

lemma process_input_messages_polls:
  assumes len: "length (subscriptions mgr) = MAX_MESSAGES"
    and run: "process_input_messages env mgr st = Inr (mgr', st')"
  shows "occurrences (check_call T) (emitted st st') + occurrences (subscribe_refused T) (emitted st st') +
           input_capacity_drops T (emitted st st') = occurrences (input_listed T) (emitted st st')"
proof -
  obtain error n w where c: "rust_get_input_message_count env (world st) = ((error, n), w)"
    by (metis prod.exhaust)
  note p = process_input_messages_passes [OF len run c]
  show ?thesis
  proof (cases "error = FFI_SUCCESS")
    case True
    with p have "list_all2 (input_pass env) [0..<n] (input_passes (emitted st st'))"
      by simp
    from input_passes_polls [OF this, of T] show ?thesis
      by (simp add: input_capacity_drops_def input_passes_def)
  next
    case False
    with p show ?thesis
      by (simp add: input_capacity_drops_def input_passes_def input_dropped_def)
  qed
qed

lemma output_advertise_polls:
  assumes "output_advertise m d"
  shows "occurrences (publish_call T) d + occurrences (advertise_failed T) d = (if m = T then 1 else 0) \<and>
         occurrences (read_match sz T) d = 0 \<and> occurrences (update_query T) d = 0 \<and>
         occurrences (output_listed T) d = 0 \<and> d \<noteq> [] \<and>
         \<not> ends_with (PX4_ERR (Too_many_publications MAX_MESSAGES)) d"
  using assms by (rule output_advertise_cases) auto

lemma output_publish_polls:
  assumes "output_publish m d"
  shows "occurrences (publish_call T) d + occurrences (advertise_failed T) d +
           (if m = T \<and> ends_with (PX4_ERR (Too_many_publications MAX_MESSAGES)) d then 1 else 0) =
           (if m = T then 1 else 0) \<and>
         occurrences (read_match sz T) d = 0 \<and> occurrences (update_query T) d = 0 \<and>
         occurrences (output_listed T) d = 0 \<and> d \<noteq> []"
  using assms
proof (rule output_publish_cases)
  fix d1
  assume "d = PX4_INFO (Advertising m) # d1" "output_advertise m d1"
  with output_advertise_polls [of m d1 T sz] show ?thesis
    by auto
qed auto

lemma output_transfer_polls:
  assumes "output_transfer env m d"
  shows "occurrences (publish_call T) d + occurrences (advertise_failed T) d +
           (if m = T \<and> ends_with (PX4_ERR (Too_many_publications MAX_MESSAGES)) d then 1 else 0) =
           occurrences (read_match (o_size env T) T) d \<and>
         occurrences (update_query T) d = 0 \<and> occurrences (output_listed T) d = 0 \<and> d \<noteq> []"
  using assms
proof (rule output_transfer_cases)
  fix d1
  assume "d = Read_output m FFI_SUCCESS (o_size env m) # d1" "output_publish m d1"
  with output_publish_polls [of m d1 T "o_size env T"] show ?thesis
    by auto
qed auto

lemma output_poll_polls:
  assumes "output_poll env m d"
  shows "occurrences (publish_call T) d + occurrences (advertise_failed T) d +
           (if m = T \<and> ends_with (PX4_ERR (Too_many_publications MAX_MESSAGES)) d then 1 else 0) =
           occurrences (read_match (o_size env T) T) d \<and>
         occurrences (update_query T) d = (if m = T then 1 else 0) \<and>
         occurrences (output_listed T) d = 0 \<and> d \<noteq> []"
  using assms
proof (rule output_poll_cases)
  fix d1
  assume "d = Has_update m FFI_SUCCESS True # d1" "output_transfer env m d1"
  with output_transfer_polls [of env m d1 T] show ?thesis
    by auto
qed auto

lemma output_pass_polls:
  assumes "output_pass env i p"
  shows "occurrences (publish_call T) p + occurrences (advertise_failed T) p +
           (if output_dropped T p then 1 else 0) = occurrences (read_match (o_size env T) T) p \<and>
         occurrences (update_query T) p = occurrences (output_listed T) p"
  using assms
proof (rule output_pass_cases)
  fix m d1
  assume "p = Get_output_id i FFI_SUCCESS m # d1" "output_poll env m d1"
  with output_poll_polls [of env m d1 T] show ?thesis
    by (auto simp: output_dropped_def)
qed (auto simp: output_dropped_def)

lemma output_passes_polls:
  assumes "list_all2 (output_pass env) is ps"
  shows "occurrences (publish_call T) (concat ps) + occurrences (advertise_failed T) (concat ps) +
           length (filter (output_dropped T) ps) = occurrences (read_match (o_size env T) T) (concat ps) \<and>
         occurrences (update_query T) (concat ps) = occurrences (output_listed T) (concat ps)"
  using assms
proof (induction rule: list_all2_induct)
  case Nil
  then show ?case by simp
next
  case (Cons i p "is" ps)
  with output_pass_polls [OF Cons.hyps(1), of T] show ?case
    by auto
qed

lemma process_output_messages_polls:
  assumes len: "length (publications mgr) = MAX_MESSAGES"
    and run: "process_output_messages env mgr st = Inr (mgr', st')"
  shows "occurrences (publish_call T) (emitted st st') + occurrences (advertise_failed T) (emitted st st') +
           output_capacity_drops T (emitted st st') =
           occurrences (read_match (o_size env T) T) (emitted st st') \<and>
         occurrences (update_query T) (emitted st st') = occurrences (output_listed T) (emitted st st')"
proof -
  obtain error n w where c: "rust_get_output_message_count env (world st) = ((error, n), w)"
    by (metis prod.exhaust)
  note p = process_output_messages_passes [OF len run c]
  show ?thesis
  proof (cases "error = FFI_SUCCESS")
    case True
    with p have "list_all2 (output_pass env) [0..<n] (output_passes (emitted st st'))"
      by simp
    from output_passes_polls [OF this, of T] show ?thesis
      by (simp add: output_capacity_drops_def output_passes_def)
  next
    case False
    with p show ?thesis
      by (simp add: output_capacity_drops_def output_passes_def output_dropped_def)
  qed
qed


subsection \<open>The valid bindings of a pool\<close>

lemma filter_update_invalid_slot:
  assumes "k < length xs" "\<not> P (xs ! k)"
  shows "filter P (xs[k := v]) =
           filter P (take k xs) @ (if P v then [v] else []) @ filter P (drop (Suc k) xs)"
    and "filter P xs = filter P (take k xs) @ filter P (drop (Suc k) xs)"
proof -
  from assms(1) have "xs[k := v] = take k xs @ v # drop (Suc k) xs"
    by (rule upd_conv_take_nth_drop)
  then show "filter P (xs[k := v]) =
           filter P (take k xs) @ (if P v then [v] else []) @ filter P (drop (Suc k) xs)"
    by simp
  from assms(1) have "xs = take k xs @ xs ! k # drop (Suc k) xs"
    by (rule id_take_nth_drop)
  then have "filter P xs = filter P (take k xs @ xs ! k # drop (Suc k) xs)"
    by simp
  with assms(2) show "filter P xs = filter P (take k xs) @ filter P (drop (Suc k) xs)"
    by simp
qed

lemma bound_in_filter:
  assumes "x \<in> set (filter P xs)" "length xs = n"
  obtains j where "j < n" "xs ! j = x" "P x"
  using assms by (auto simp: in_set_conv_nth)

lemma find_subscription_None_iff:
  assumes "length (subscriptions mgr) = MAX_MESSAGES"
  shows "(find_subscription (subscriptions mgr) T 0 = None) = (T \<notin> set (subscribed mgr))"
proof
  assume n: "find_subscription (subscriptions mgr) T 0 = None"
  show "T \<notin> set (subscribed mgr)"
  proof
    assume "T \<in> set (subscribed mgr)"
    then obtain x where x: "x \<in> set (filter sub_is_valid (subscriptions mgr))" "sub_id x = T"
      by (auto simp: subscribed_def)
    from x(1) assms obtain j where "j < MAX_MESSAGES" "subscriptions mgr ! j = x" "sub_is_valid x"
      by (rule bound_in_filter)
    with find_subscription_None [OF n, of j] x(2) show False
      by simp
  qed
next
  assume t: "T \<notin> set (subscribed mgr)"
  show "find_subscription (subscriptions mgr) T 0 = None"
  proof (cases "find_subscription (subscriptions mgr) T 0")
    case None
    then show ?thesis .
  next
    case (Some k)
    from find_subscription_Some [OF Some] assms
    have "subscriptions mgr ! k \<in> set (filter sub_is_valid (subscriptions mgr))"
      "sub_id (subscriptions mgr ! k) = T"
      by simp_all
    then have "T \<in> set (subscribed mgr)"
      unfolding subscribed_def by force
    with t show ?thesis by simp
  qed
qed

lemma find_empty_sub_None_iff:
  assumes "length (subscriptions mgr) = MAX_MESSAGES"
  shows "(find_empty_sub (subscriptions mgr) 0 = None) = list_all sub_is_valid (subscriptions mgr)"
proof
  assume "find_empty_sub (subscriptions mgr) 0 = None"
  from find_empty_sub_None [OF this] assms show "list_all sub_is_valid (subscriptions mgr)"
    by (auto simp: list_all_length)
next
  assume a: "list_all sub_is_valid (subscriptions mgr)"
  show "find_empty_sub (subscriptions mgr) 0 = None"
  proof (cases "find_empty_sub (subscriptions mgr) 0")
    case None
    then show ?thesis .
  next
    case (Some k)
    from find_empty_sub_Some [OF Some] a assms show ?thesis
      by (auto simp: list_all_length)
  qed
qed

lemma subscribed_length_le:
  "length (subscriptions mgr) = MAX_MESSAGES \<Longrightarrow> length (subscribed mgr) \<le> MAX_MESSAGES"
  unfolding subscribed_def using length_filter_le [of sub_is_valid "subscriptions mgr"] by simp

lemma subscribed_full:
  "list_all sub_is_valid (subscriptions mgr) \<Longrightarrow> length (subscribed mgr) = length (subscriptions mgr)"
  by (simp add: subscribed_def list_all_iff)

text \<open>
  One call of \<open>ensure_subscription\<close> leaves the valid bindings as they are, or adds one for
  the topic asked for, which had none.
\<close>

lemma ensure_subscription_subscribed:
  assumes len: "length (subscriptions mgr) = MAX_MESSAGES"
    and ens: "ensure_subscription env T mgr st = (r, mgr', st')"
  shows "length (subscriptions mgr') = MAX_MESSAGES \<and>
         (subscribed mgr' = subscribed mgr \<or>
          T \<notin> set (subscribed mgr) \<and>
          (\<exists>a b. subscribed mgr = a @ b \<and> subscribed mgr' = a @ T # b))"
proof (cases "find_subscription (subscriptions mgr) T 0")
  case (Some k)
  with ens len show ?thesis
    by (simp add: ensure_subscription_found)
next
  case None
  then have new: "T \<notin> set (subscribed mgr)"
    by (simp add: find_subscription_None_iff [OF len])
  show ?thesis
  proof (cases "find_empty_sub (subscriptions mgr) 0")
    case inner: None
    with ens None len show ?thesis
      by (simp add: ensure_subscription_full)
  next
    case (Some k)
    obtain h w where h: "orb_subscribe env T (world st) = (h, w)"
      by (metis prod.exhaust)
    from find_empty_sub_Some [OF Some] len have k: "k < length (subscriptions mgr)"
      "\<not> sub_is_valid (subscriptions mgr ! k)"
      by simp_all
    from ens have mgr': "mgr' = mgr\<lparr>subscriptions :=
        (subscriptions mgr)[k := \<lparr>sub_id = T, sub_handle = (if h < 0 then - 1 else h)\<rparr>]\<rparr>"
      unfolding ensure_subscription_new [OF None Some h] by simp
    show ?thesis
    proof (cases "h < 0")
      case True
      with mgr' filter_update_invalid_slot [where P = sub_is_valid, OF k] len show ?thesis
        by (simp add: subscribed_def sub_is_valid_def)
    next
      case False
      with mgr' filter_update_invalid_slot(1) [where P = sub_is_valid and v = "\<lparr>sub_id = T, sub_handle = h\<rparr>", OF k]
        filter_update_invalid_slot(2) [where P = sub_is_valid, OF k]
      have "subscribed mgr = map sub_id (filter sub_is_valid (take k (subscriptions mgr))) @
              map sub_id (filter sub_is_valid (drop (Suc k) (subscriptions mgr)))"
        "subscribed mgr' = map sub_id (filter sub_is_valid (take k (subscriptions mgr))) @
              T # map sub_id (filter sub_is_valid (drop (Suc k) (subscriptions mgr)))"
        by (simp_all add: subscribed_def sub_is_valid_def)
      with new mgr' len show ?thesis
        by auto
    qed
  qed
qed

lemma ensure_subscription_bound:
  assumes len: "length (subscriptions mgr) = MAX_MESSAGES"
    and ok: "\<forall>T w. fst (orb_subscribe env T w) \<ge> 0"
    and ens: "ensure_subscription env T mgr st = (r, mgr', st')"
  shows "T \<in> set (subscribed mgr') \<or> length (subscribed mgr') = MAX_MESSAGES"
proof (cases "find_subscription (subscriptions mgr) T 0")
  case (Some k)
  then have "T \<in> set (subscribed mgr)"
    using find_subscription_None_iff [OF len, of T] by simp
  with ens Some show ?thesis
    by (simp add: ensure_subscription_found)
next
  case None
  show ?thesis
  proof (cases "find_empty_sub (subscriptions mgr) 0")
    case inner: None
    then have "list_all sub_is_valid (subscriptions mgr)"
      by (simp add: find_empty_sub_None_iff [OF len])
    from subscribed_full [OF this] ens None inner len show ?thesis
      by (simp add: ensure_subscription_full)
  next
    case (Some k)
    obtain h w where h: "orb_subscribe env T (world st) = (h, w)"
      by (metis prod.exhaust)
    with ok have h0: "\<not> h < 0"
      by (metis fst_conv not_less)
    from find_empty_sub_Some [OF Some] len have k: "k < length (subscriptions mgr)"
      "\<not> sub_is_valid (subscriptions mgr ! k)"
      by simp_all
    from ens h0 have mgr': "mgr' = mgr\<lparr>subscriptions :=
        (subscriptions mgr)[k := \<lparr>sub_id = T, sub_handle = h\<rparr>]\<rparr>"
      unfolding ensure_subscription_new [OF None Some h] by simp
    from h0 mgr' filter_update_invalid_slot(1) [where P = sub_is_valid and v = "\<lparr>sub_id = T, sub_handle = h\<rparr>", OF k]
    show ?thesis
      by (simp add: subscribed_def sub_is_valid_def)
  qed
qed

lemma ensure_subscriptions_pool:
  assumes "length (subscriptions mgr) = MAX_MESSAGES"
    and "ensure_subscriptions env Ts mgr st = (mgr', st')"
  shows "length (subscriptions mgr') = MAX_MESSAGES \<and>
         set (subscribed mgr) \<subseteq> set (subscribed mgr') \<and>
         set (subscribed mgr') \<subseteq> set (subscribed mgr) \<union> set Ts \<and>
         length (subscribed mgr) \<le> length (subscribed mgr') \<and>
         (distinct (subscribed mgr) \<longrightarrow> distinct (subscribed mgr'))"
  using assms
proof (induction Ts arbitrary: mgr st)
  case Nil
  then show ?case by simp
next
  case (Cons T Ts)
  obtain r mgr1 st1 where e: "ensure_subscription env T mgr st = (r, mgr1, st1)"
    by (metis prod_cases3)
  with Cons.prems(2) have rest: "ensure_subscriptions env Ts mgr1 st1 = (mgr', st')"
    by simp
  from ensure_subscription_subscribed [OF Cons.prems(1) e]
  have len1: "length (subscriptions mgr1) = MAX_MESSAGES"
    and step: "set (subscribed mgr) \<subseteq> set (subscribed mgr1)"
      "set (subscribed mgr1) \<subseteq> insert T (set (subscribed mgr))"
      "length (subscribed mgr) \<le> length (subscribed mgr1)"
      "distinct (subscribed mgr) \<longrightarrow> distinct (subscribed mgr1)"
    by auto
  from Cons.IH [OF len1 rest] step show ?case
    by auto
qed

lemma ensure_subscriptions_bound:
  assumes "length (subscriptions mgr) = MAX_MESSAGES"
    and "\<forall>T w. fst (orb_subscribe env T w) \<ge> 0"
    and "ensure_subscriptions env Ts mgr st = (mgr', st')"
  shows "set Ts \<subseteq> set (subscribed mgr') \<or> length (subscribed mgr') = MAX_MESSAGES"
  using assms(1,3)
proof (induction Ts arbitrary: mgr st)
  case Nil
  then show ?case by simp
next
  case (Cons T Ts)
  obtain r mgr1 st1 where e: "ensure_subscription env T mgr st = (r, mgr1, st1)"
    by (metis prod_cases3)
  with Cons.prems(2) have rest: "ensure_subscriptions env Ts mgr1 st1 = (mgr', st')"
    by simp
  from ensure_subscription_subscribed [OF Cons.prems(1) e]
  have len1: "length (subscriptions mgr1) = MAX_MESSAGES"
    by simp
  from ensure_subscriptions_pool [OF len1 rest]
  have mono: "set (subscribed mgr1) \<subseteq> set (subscribed mgr')"
    "length (subscribed mgr1) \<le> length (subscribed mgr')"
    "length (subscriptions mgr') = MAX_MESSAGES"
    by simp_all
  from ensure_subscription_bound [OF Cons.prems(1) assms(2) e] Cons.IH [OF len1 rest] mono
    subscribed_length_le [OF mono(3)]
  show ?case
    by auto
qed

lemma find_publication_None_iff:
  assumes "length (publications mgr) = MAX_MESSAGES"
  shows "(find_publication (publications mgr) T 0 = None) = (T \<notin> set (advertised mgr))"
proof
  assume n: "find_publication (publications mgr) T 0 = None"
  show "T \<notin> set (advertised mgr)"
  proof
    assume "T \<in> set (advertised mgr)"
    then obtain x where x: "x \<in> set (filter pub_is_valid (publications mgr))" "pub_id x = T"
      by (auto simp: advertised_def)
    from x(1) assms obtain j where "j < MAX_MESSAGES" "publications mgr ! j = x" "pub_is_valid x"
      by (rule bound_in_filter)
    with find_publication_None [OF n, of j] x(2) show False
      by simp
  qed
next
  assume t: "T \<notin> set (advertised mgr)"
  show "find_publication (publications mgr) T 0 = None"
  proof (cases "find_publication (publications mgr) T 0")
    case None
    then show ?thesis .
  next
    case (Some k)
    from find_publication_Some [OF Some] assms
    have "publications mgr ! k \<in> set (filter pub_is_valid (publications mgr))"
      "pub_id (publications mgr ! k) = T"
      by simp_all
    then have "T \<in> set (advertised mgr)"
      unfolding advertised_def by force
    with t show ?thesis by simp
  qed
qed

lemma find_empty_pub_None_iff:
  assumes "length (publications mgr) = MAX_MESSAGES"
  shows "(find_empty_pub (publications mgr) 0 = None) = list_all pub_is_valid (publications mgr)"
proof
  assume "find_empty_pub (publications mgr) 0 = None"
  from find_empty_pub_None [OF this] assms show "list_all pub_is_valid (publications mgr)"
    by (auto simp: list_all_length)
next
  assume a: "list_all pub_is_valid (publications mgr)"
  show "find_empty_pub (publications mgr) 0 = None"
  proof (cases "find_empty_pub (publications mgr) 0")
    case None
    then show ?thesis .
  next
    case (Some k)
    from find_empty_pub_Some [OF Some] a assms show ?thesis
      by (auto simp: list_all_length)
  qed
qed

lemma advertised_length_le:
  "length (publications mgr) = MAX_MESSAGES \<Longrightarrow> length (advertised mgr) \<le> MAX_MESSAGES"
  unfolding advertised_def using length_filter_le [of pub_is_valid "publications mgr"] by simp

lemma advertised_full:
  "list_all pub_is_valid (publications mgr) \<Longrightarrow> length (advertised mgr) = length (publications mgr)"
  by (simp add: advertised_def list_all_iff)

lemma ensure_publication_advertised:
  assumes len: "length (publications mgr) = MAX_MESSAGES"
    and ens: "ensure_publication env T bytes mgr st = (r, mgr', st')"
  shows "length (publications mgr') = MAX_MESSAGES \<and>
         (advertised mgr' = advertised mgr \<or>
          T \<notin> set (advertised mgr) \<and>
          (\<exists>a b. advertised mgr = a @ b \<and> advertised mgr' = a @ T # b))"
proof (cases "find_publication (publications mgr) T 0")
  case (Some k)
  with ens len show ?thesis
    by (simp add: ensure_publication_found)
next
  case None
  then have new: "T \<notin> set (advertised mgr)"
    by (simp add: find_publication_None_iff [OF len])
  show ?thesis
  proof (cases "find_empty_pub (publications mgr) 0")
    case inner: None
    with ens None len show ?thesis
      by (simp add: ensure_publication_full)
  next
    case (Some k)
    obtain h w where h: "orb_advertise env T bytes (world st) = (h, w)"
      by (metis prod.exhaust)
    from find_empty_pub_Some [OF Some] len have k: "k < length (publications mgr)"
      "\<not> pub_is_valid (publications mgr ! k)"
      by simp_all
    from ens have mgr': "mgr' = mgr\<lparr>publications :=
        (publications mgr)[k := \<lparr>pub_id = T, pub_handle = h\<rparr>]\<rparr>"
      unfolding ensure_publication_new [OF None Some h] by simp
    show ?thesis
    proof (cases "h = 0")
      case True
      with mgr' filter_update_invalid_slot [where P = pub_is_valid, OF k] len show ?thesis
        by (simp add: advertised_def pub_is_valid_def)
    next
      case False
      with mgr' filter_update_invalid_slot(1) [where P = pub_is_valid and v = "\<lparr>pub_id = T, pub_handle = h\<rparr>", OF k]
        filter_update_invalid_slot(2) [where P = pub_is_valid, OF k]
      have "advertised mgr = map pub_id (filter pub_is_valid (take k (publications mgr))) @
              map pub_id (filter pub_is_valid (drop (Suc k) (publications mgr)))"
        "advertised mgr' = map pub_id (filter pub_is_valid (take k (publications mgr))) @
              T # map pub_id (filter pub_is_valid (drop (Suc k) (publications mgr)))"
        by (simp_all add: advertised_def pub_is_valid_def)
      with new mgr' len show ?thesis
        by auto
    qed
  qed
qed

lemma ensure_publication_bound:
  assumes len: "length (publications mgr) = MAX_MESSAGES"
    and ok: "\<forall>T bytes w. fst (orb_advertise env T bytes w) \<noteq> 0"
    and ens: "ensure_publication env T bytes mgr st = (r, mgr', st')"
  shows "T \<in> set (advertised mgr') \<or> length (advertised mgr') = MAX_MESSAGES"
proof (cases "find_publication (publications mgr) T 0")
  case (Some k)
  then have "T \<in> set (advertised mgr)"
    using find_publication_None_iff [OF len, of T] by simp
  with ens Some show ?thesis
    by (simp add: ensure_publication_found)
next
  case None
  show ?thesis
  proof (cases "find_empty_pub (publications mgr) 0")
    case inner: None
    then have "list_all pub_is_valid (publications mgr)"
      by (simp add: find_empty_pub_None_iff [OF len])
    from advertised_full [OF this] ens None inner len show ?thesis
      by (simp add: ensure_publication_full)
  next
    case (Some k)
    obtain h w where h: "orb_advertise env T bytes (world st) = (h, w)"
      by (metis prod.exhaust)
    with ok have h0: "h \<noteq> 0"
      by (metis fst_conv)
    from find_empty_pub_Some [OF Some] len have k: "k < length (publications mgr)"
      "\<not> pub_is_valid (publications mgr ! k)"
      by simp_all
    from ens have mgr': "mgr' = mgr\<lparr>publications :=
        (publications mgr)[k := \<lparr>pub_id = T, pub_handle = h\<rparr>]\<rparr>"
      unfolding ensure_publication_new [OF None Some h] by simp
    from h0 mgr' filter_update_invalid_slot(1) [where P = pub_is_valid and v = "\<lparr>pub_id = T, pub_handle = h\<rparr>", OF k]
    show ?thesis
      by (simp add: advertised_def pub_is_valid_def)
  qed
qed

lemma ensure_publications_pool:
  assumes "length (publications mgr) = MAX_MESSAGES"
    and "ensure_publications env Ps mgr st = (mgr', st')"
  shows "length (publications mgr') = MAX_MESSAGES \<and>
         set (advertised mgr) \<subseteq> set (advertised mgr') \<and>
         set (advertised mgr') \<subseteq> set (advertised mgr) \<union> set (map fst Ps) \<and>
         length (advertised mgr) \<le> length (advertised mgr') \<and>
         (distinct (advertised mgr) \<longrightarrow> distinct (advertised mgr'))"
  using assms
proof (induction Ps arbitrary: mgr st)
  case Nil
  then show ?case by simp
next
  case (Cons P Ps)
  obtain T bytes where P: "P = (T, bytes)"
    by (metis prod.exhaust)
  obtain r mgr1 st1 where e: "ensure_publication env T bytes mgr st = (r, mgr1, st1)"
    by (metis prod_cases3)
  with Cons.prems(2) P have rest: "ensure_publications env Ps mgr1 st1 = (mgr', st')"
    by simp
  from ensure_publication_advertised [OF Cons.prems(1) e]
  have len1: "length (publications mgr1) = MAX_MESSAGES"
    and step: "set (advertised mgr) \<subseteq> set (advertised mgr1)"
      "set (advertised mgr1) \<subseteq> insert T (set (advertised mgr))"
      "length (advertised mgr) \<le> length (advertised mgr1)"
      "distinct (advertised mgr) \<longrightarrow> distinct (advertised mgr1)"
    by auto
  from Cons.IH [OF len1 rest] step P show ?case
    by auto
qed

lemma ensure_publications_bound:
  assumes "length (publications mgr) = MAX_MESSAGES"
    and "\<forall>T bytes w. fst (orb_advertise env T bytes w) \<noteq> 0"
    and "ensure_publications env Ps mgr st = (mgr', st')"
  shows "set (map fst Ps) \<subseteq> set (advertised mgr') \<or> length (advertised mgr') = MAX_MESSAGES"
  using assms(1,3)
proof (induction Ps arbitrary: mgr st)
  case Nil
  then show ?case by simp
next
  case (Cons P Ps)
  obtain T bytes where P: "P = (T, bytes)"
    by (metis prod.exhaust)
  obtain r mgr1 st1 where e: "ensure_publication env T bytes mgr st = (r, mgr1, st1)"
    by (metis prod_cases3)
  with Cons.prems(2) P have rest: "ensure_publications env Ps mgr1 st1 = (mgr', st')"
    by simp
  from ensure_publication_advertised [OF Cons.prems(1) e]
  have len1: "length (publications mgr1) = MAX_MESSAGES"
    by simp
  from ensure_publications_pool [OF len1 rest]
  have mono: "set (advertised mgr1) \<subseteq> set (advertised mgr')"
    "length (advertised mgr1) \<le> length (advertised mgr')"
    "length (publications mgr') = MAX_MESSAGES"
    by simp_all
  from ensure_publication_bound [OF Cons.prems(1) assms(2) e] Cons.IH [OF len1 rest] mono
    advertised_length_le [OF mono(3)] P
  show ?case
    by auto
qed

text \<open>From the empty pool, with a bus that accepts every subscription and advertisement.\<close>

lemma subscribed_init: "subscribed InputManager_init = []"
  by (simp add: subscribed_def InputManager_init_def OrbSubscription_default_def sub_is_valid_def)

lemma advertised_init: "advertised OutputManager_init = []"
  by (simp add: advertised_def OutputManager_init_def OrbPublication_default_def pub_is_valid_def)

lemma pool_exactly:
  assumes d: "distinct xs" and sub: "set xs \<subseteq> set Ts"
    and full: "set Ts \<subseteq> set xs \<or> length xs = n"
    and cap: "length (remdups Ts) \<le> n"
  shows "set xs = set Ts \<and> length xs = length (remdups Ts)"
proof -
  have c: "card (set xs) = length xs"
    using d by (rule distinct_card)
  have "set xs = set Ts"
  proof (cases "set Ts \<subseteq> set xs")
    case True
    with sub show ?thesis by auto
  next
    case False
    with full have "length xs = n" by simp
    with cap c have "card (set Ts) \<le> card (set xs)"
      by (simp add: length_remdups_card_conv)
    with sub show ?thesis
      by (simp add: card_seteq)
  qed
  with c show ?thesis
    by (simp add: length_remdups_card_conv)
qed


subsection \<open>Pools fill from the first slot\<close>

lemma find_empty_sub_first:
  "find_empty_sub subs i = Some k \<Longrightarrow> i \<le> j \<Longrightarrow> j < k \<Longrightarrow> sub_is_valid (subs ! j)"
proof (induction subs i rule: find_empty_sub.induct)
  case (1 subs i)
  then show ?case
    by (subst (asm) (2) find_empty_sub.simps)
       (auto split: if_splits simp: le_Suc_eq dest: le_neq_implies_less)
qed

lemma packed_subs_iff:
  "packed_subs subs k =
     (length subs = MAX_MESSAGES \<and> k \<le> MAX_MESSAGES \<and>
      (\<forall>j<MAX_MESSAGES. sub_is_valid (subs ! j) = (j < k)))"
  unfolding packed_subs_def
  by (auto simp: list_eq_iff_nth_eq nth_append)

lemma packed_subs_nth:
  assumes "packed_subs subs k" "j < MAX_MESSAGES"
  shows "sub_is_valid (subs ! j) = (j < k)"
  using assms by (simp add: packed_subs_iff)

lemma packed_find_empty:
  assumes p: "packed_subs subs k"
  shows "find_empty_sub subs 0 = (if k < MAX_MESSAGES then Some k else None)"
proof (cases "find_empty_sub subs 0")
  case None
  have "\<not> k < MAX_MESSAGES"
  proof
    assume "k < MAX_MESSAGES"
    with find_empty_sub_None [OF None, of k] packed_subs_nth [OF p, of k] show False
      by simp
  qed
  with None show ?thesis by simp
next
  case (Some j)
  from find_empty_sub_Some [OF Some] have j: "j < MAX_MESSAGES" "\<not> sub_is_valid (subs ! j)"
    by simp_all
  with packed_subs_nth [OF p, of j] have kj: "k \<le> j" by simp
  have "\<not> k < j"
  proof
    assume "k < j"
    with find_empty_sub_first [OF Some, of k] have "sub_is_valid (subs ! k)" by simp
    moreover from \<open>k < j\<close> j have "k < MAX_MESSAGES" by simp
    ultimately show False
      using packed_subs_nth [OF p, of k] by simp
  qed
  with kj have "j = k" by simp
  with Some j show ?thesis by simp
qed

lemma packed_filter:
  assumes "packed_subs subs k"
  shows "filter sub_is_valid subs = take k subs"
proof -
  from assms have len: "length subs = MAX_MESSAGES" and k: "k \<le> MAX_MESSAGES"
    and n: "\<And>j. j < MAX_MESSAGES \<Longrightarrow> sub_is_valid (subs ! j) = (j < k)"
    by (simp_all add: packed_subs_iff)
  have "filter sub_is_valid subs = filter sub_is_valid (take k subs) @ filter sub_is_valid (drop k subs)"
    by (metis append_take_drop_id filter_append)
  moreover have "list_all sub_is_valid (take k subs)"
    using len k n by (simp add: list_all_length)
  then have "filter sub_is_valid (take k subs) = take k subs"
    by (simp add: list_all_iff)
  moreover have "list_all (\<lambda>s. \<not> sub_is_valid s) (drop k subs)"
    using len k n by (simp add: list_all_length)
  then have "filter sub_is_valid (drop k subs) = []"
    by (simp add: list_all_iff filter_empty_conv)
  ultimately show ?thesis by simp
qed

lemma packed_subscribed_length:
  assumes "packed_subs (subscriptions mgr) k"
  shows "length (subscribed mgr) = k"
  using assms packed_filter [OF assms] by (simp add: subscribed_def packed_subs_iff)

lemma packed_update:
  assumes p: "packed_subs subs k" and k: "k < MAX_MESSAGES" and v: "sub_is_valid s"
  shows "packed_subs (subs[k := s]) (Suc k)"
    and "filter sub_is_valid (subs[k := s]) = filter sub_is_valid subs @ [s]"
proof -
  from p k have len: "k < length subs" by (simp add: packed_subs_iff)
  have t: "take (Suc k) (subs[k := s]) = take k subs @ [s]"
    using len by (simp add: take_Suc_conv_app_nth)
  from p k v len show "packed_subs (subs[k := s]) (Suc k)"
    by (auto simp: packed_subs_iff nth_list_update)
  then have "filter sub_is_valid (subs[k := s]) = take (Suc k) (subs[k := s])"
    by (rule packed_filter)
  with t packed_filter [OF p] show "filter sub_is_valid (subs[k := s]) = filter sub_is_valid subs @ [s]"
    by simp
qed

lemma packed_init: "packed_subs (subscriptions InputManager_init) 0"
  by (simp add: packed_subs_def InputManager_init_def OrbSubscription_default_def sub_is_valid_def)

lemma ensure_subscription_packed:
  assumes accept: "\<forall>T w. 0 \<le> fst (orb_subscribe env T w)"
    and p: "packed_subs (subscriptions mgr) k"
    and new: "T \<notin> set (subscribed mgr)"
    and ens: "ensure_subscription env T mgr st = (r, mgr', st')"
  shows "if k < MAX_MESSAGES
         then r = Sub_slot k \<and> packed_subs (subscriptions mgr') (Suc k) \<and>
              subscribed mgr' = subscribed mgr @ [T] \<and>
              (\<exists>h. 0 \<le> h \<and> sub_at mgr' r = \<lparr>sub_id = T, sub_handle = h\<rparr> \<and>
                   trace st' = trace st @ [PX4_INFO (Subscribing T), Orb_subscribe T h])
         else r = Invalid_sub \<and> mgr' = mgr \<and>
              trace st' = trace st @ [PX4_ERR (Too_many_subscriptions MAX_MESSAGES)]"
proof -
  from p have len: "length (subscriptions mgr) = MAX_MESSAGES"
    by (simp add: packed_subs_iff)
  from new have none: "find_subscription (subscriptions mgr) T 0 = None"
    by (simp add: find_subscription_None_iff [OF len])
  note e = packed_find_empty [OF p]
  show ?thesis
  proof (cases "k < MAX_MESSAGES")
    case False
    with e have "find_empty_sub (subscriptions mgr) 0 = None" by simp
    from ens [unfolded ensure_subscription_full [OF none this]] False show ?thesis
      by auto
  next
    case True
    with e have k: "find_empty_sub (subscriptions mgr) 0 = Some k" by simp
    obtain h w where h: "orb_subscribe env T (world st) = (h, w)"
      by (metis prod.exhaust)
    with accept have h0: "0 \<le> h"
      by (metis fst_conv)
    define s where "s = \<lparr>sub_id = T, sub_handle = h\<rparr>"
    have v: "sub_is_valid s"
      using h0 by (simp add: s_def sub_is_valid_def)
    from ens [unfolded ensure_subscription_new [OF none k h]] h0
    have r: "r = Sub_slot k" and m: "mgr' = mgr\<lparr>subscriptions := (subscriptions mgr)[k := s]\<rparr>"
      and t: "trace st' = trace st @ [PX4_INFO (Subscribing T), Orb_subscribe T h]"
      by (auto simp: s_def)
    note u = packed_update [OF p True v]
    from True len have "sub_at mgr' r = s"
      by (simp add: r m)
    with True r m t u h0 show ?thesis
      by (auto simp: subscribed_def s_def)
  qed
qed

lemma ensure_subscriptions_packed:
  assumes accept: "\<forall>T w. 0 \<le> fst (orb_subscribe env T w)"
    and p: "packed_subs (subscriptions mgr) k"
    and d: "distinct (subscribed mgr @ Ts)"
    and run: "ensure_subscriptions env Ts mgr st = (mgr', st')"
  shows "packed_subs (subscriptions mgr') (min MAX_MESSAGES (k + length Ts)) \<and>
         subscribed mgr' = take MAX_MESSAGES (subscribed mgr @ Ts) \<and>
         ensure_subscription_refs env Ts mgr st =
           map Sub_slot [k..<min MAX_MESSAGES (k + length Ts)] @
           replicate (k + length Ts - MAX_MESSAGES) Invalid_sub \<and>
         (\<exists>d. trace st' = trace st @ d \<and>
              occurrences sub_capacity_error d = k + length Ts - MAX_MESSAGES)"
  using p d run
proof (induction Ts arbitrary: k mgr st)
  case Nil
  then show ?case
    using packed_subscribed_length [OF Nil.prems(1)]
    by (auto simp: packed_subs_iff min_def)
next
  case (Cons T Ts)
  obtain r mgr1 st1 where e: "ensure_subscription env T mgr st = (r, mgr1, st1)"
    by (metis prod.exhaust)
  with Cons.prems(3) have run1: "ensure_subscriptions env Ts mgr1 st1 = (mgr', st')"
    by simp
  from Cons.prems(2) have new: "T \<notin> set (subscribed mgr)"
    by auto
  note step = ensure_subscription_packed [OF accept Cons.prems(1) new e]
  note len = packed_subscribed_length [OF Cons.prems(1)]
  from Cons.prems(1) have kle: "k \<le> MAX_MESSAGES"
    by (simp add: packed_subs_iff)
  show ?case
  proof (cases "k < MAX_MESSAGES")
    case True
    with step obtain h where r: "r = Sub_slot k"
      and p1: "packed_subs (subscriptions mgr1) (Suc k)"
      and s1: "subscribed mgr1 = subscribed mgr @ [T]"
      and t1: "trace st1 = trace st @ [PX4_INFO (Subscribing T), Orb_subscribe T h]"
      by auto
    from Cons.prems(2) s1 have d1: "distinct (subscribed mgr1 @ Ts)"
      by simp
    from Cons.IH [OF p1 d1 run1] obtain d2 where
      ih: "packed_subs (subscriptions mgr') (min MAX_MESSAGES (Suc k + length Ts))"
        "subscribed mgr' = take MAX_MESSAGES (subscribed mgr1 @ Ts)"
        "ensure_subscription_refs env Ts mgr1 st1 =
           map Sub_slot [Suc k..<min MAX_MESSAGES (Suc k + length Ts)] @
           replicate (Suc k + length Ts - MAX_MESSAGES) Invalid_sub"
        "trace st' = trace st1 @ d2"
        "occurrences sub_capacity_error d2 = Suc k + length Ts - MAX_MESSAGES"
      by blast
    from True have "[k..<min MAX_MESSAGES (k + length (T # Ts))] =
        k # [Suc k..<min MAX_MESSAGES (Suc k + length Ts)]"
      by (simp add: upt_conv_Cons)
    with ih e r s1 t1 show ?thesis
      by simp
  next
    case False
    with kle have k: "k = MAX_MESSAGES" by simp
    from step False have r: "r = Invalid_sub" and m: "mgr1 = mgr"
      and t1: "trace st1 = trace st @ [PX4_ERR (Too_many_subscriptions MAX_MESSAGES)]"
      by auto
    from Cons.prems(2) have d1: "distinct (subscribed mgr @ Ts)"
      by simp
    from Cons.IH [OF Cons.prems(1) d1 run1 [unfolded m]] obtain d2 where
      ih: "packed_subs (subscriptions mgr') (min MAX_MESSAGES (k + length Ts))"
        "subscribed mgr' = take MAX_MESSAGES (subscribed mgr @ Ts)"
        "ensure_subscription_refs env Ts mgr st1 =
           map Sub_slot [k..<min MAX_MESSAGES (k + length Ts)] @
           replicate (k + length Ts - MAX_MESSAGES) Invalid_sub"
        "trace st' = trace st1 @ d2"
        "occurrences sub_capacity_error d2 = k + length Ts - MAX_MESSAGES"
      by blast
    with e r m t1 k len show ?thesis
      by (simp add: min_def)
  qed
qed

lemma find_empty_pub_first:
  "find_empty_pub pubs i = Some k \<Longrightarrow> i \<le> j \<Longrightarrow> j < k \<Longrightarrow> pub_is_valid (pubs ! j)"
proof (induction pubs i rule: find_empty_pub.induct)
  case (1 pubs i)
  then show ?case
    by (subst (asm) (2) find_empty_pub.simps)
       (auto split: if_splits simp: le_Suc_eq dest: le_neq_implies_less)
qed

lemma packed_pubs_iff:
  "packed_pubs pubs k =
     (length pubs = MAX_MESSAGES \<and> k \<le> MAX_MESSAGES \<and>
      (\<forall>j<MAX_MESSAGES. pub_is_valid (pubs ! j) = (j < k)))"
  unfolding packed_pubs_def
  by (auto simp: list_eq_iff_nth_eq nth_append)

lemma packed_pubs_nth:
  assumes "packed_pubs pubs k" "j < MAX_MESSAGES"
  shows "pub_is_valid (pubs ! j) = (j < k)"
  using assms by (simp add: packed_pubs_iff)

lemma packed_find_empty_pub:
  assumes p: "packed_pubs pubs k"
  shows "find_empty_pub pubs 0 = (if k < MAX_MESSAGES then Some k else None)"
proof (cases "find_empty_pub pubs 0")
  case None
  have "\<not> k < MAX_MESSAGES"
  proof
    assume "k < MAX_MESSAGES"
    with find_empty_pub_None [OF None, of k] packed_pubs_nth [OF p, of k] show False
      by simp
  qed
  with None show ?thesis by simp
next
  case (Some j)
  from find_empty_pub_Some [OF Some] have j: "j < MAX_MESSAGES" "\<not> pub_is_valid (pubs ! j)"
    by simp_all
  with packed_pubs_nth [OF p, of j] have kj: "k \<le> j" by simp
  have "\<not> k < j"
  proof
    assume "k < j"
    with find_empty_pub_first [OF Some, of k] have "pub_is_valid (pubs ! k)" by simp
    moreover from \<open>k < j\<close> j have "k < MAX_MESSAGES" by simp
    ultimately show False
      using packed_pubs_nth [OF p, of k] by simp
  qed
  with kj have "j = k" by simp
  with Some j show ?thesis by simp
qed

lemma packed_pubs_filter:
  assumes "packed_pubs pubs k"
  shows "filter pub_is_valid pubs = take k pubs"
proof -
  from assms have len: "length pubs = MAX_MESSAGES" and k: "k \<le> MAX_MESSAGES"
    and n: "\<And>j. j < MAX_MESSAGES \<Longrightarrow> pub_is_valid (pubs ! j) = (j < k)"
    by (simp_all add: packed_pubs_iff)
  have "filter pub_is_valid pubs = filter pub_is_valid (take k pubs) @ filter pub_is_valid (drop k pubs)"
    by (metis append_take_drop_id filter_append)
  moreover have "list_all pub_is_valid (take k pubs)"
    using len k n by (simp add: list_all_length)
  then have "filter pub_is_valid (take k pubs) = take k pubs"
    by (simp add: list_all_iff)
  moreover have "list_all (\<lambda>s. \<not> pub_is_valid s) (drop k pubs)"
    using len k n by (simp add: list_all_length)
  then have "filter pub_is_valid (drop k pubs) = []"
    by (simp add: list_all_iff filter_empty_conv)
  ultimately show ?thesis by simp
qed

lemma packed_advertised_length:
  assumes "packed_pubs (publications mgr) k"
  shows "length (advertised mgr) = k"
  using assms packed_pubs_filter [OF assms] by (simp add: advertised_def packed_pubs_iff)

lemma packed_pubs_update:
  assumes p: "packed_pubs pubs k" and k: "k < MAX_MESSAGES" and v: "pub_is_valid s"
  shows "packed_pubs (pubs[k := s]) (Suc k)"
    and "filter pub_is_valid (pubs[k := s]) = filter pub_is_valid pubs @ [s]"
proof -
  from p k have len: "k < length pubs" by (simp add: packed_pubs_iff)
  have t: "take (Suc k) (pubs[k := s]) = take k pubs @ [s]"
    using len by (simp add: take_Suc_conv_app_nth)
  from p k v len show "packed_pubs (pubs[k := s]) (Suc k)"
    by (auto simp: packed_pubs_iff nth_list_update)
  then have "filter pub_is_valid (pubs[k := s]) = take (Suc k) (pubs[k := s])"
    by (rule packed_pubs_filter)
  with t packed_pubs_filter [OF p] show "filter pub_is_valid (pubs[k := s]) = filter pub_is_valid pubs @ [s]"
    by simp
qed

lemma packed_pubs_init: "packed_pubs (publications OutputManager_init) 0"
  by (simp add: packed_pubs_def OutputManager_init_def OrbPublication_default_def pub_is_valid_def)

lemma ensure_publication_packed:
  assumes accept: "\<forall>T bytes w. fst (orb_advertise env T bytes w) \<noteq> 0"
    and p: "packed_pubs (publications mgr) k"
    and new: "T \<notin> set (advertised mgr)"
    and ens: "ensure_publication env T initial_data mgr st = (r, mgr', st')"
  shows "if k < MAX_MESSAGES
         then r = Pub_slot k \<and> packed_pubs (publications mgr') (Suc k) \<and>
              advertised mgr' = advertised mgr @ [T] \<and> out_buffer mgr' = out_buffer mgr \<and>
              (\<exists>h. h \<noteq> 0 \<and> pub_at mgr' r = \<lparr>pub_id = T, pub_handle = h\<rparr> \<and>
                   trace st' = trace st @
                     [PX4_INFO (Advertising T), Orb_advertise T (take (o_size env T) initial_data) h])
         else r = Invalid_pub \<and> mgr' = mgr \<and>
              trace st' = trace st @ [PX4_ERR (Too_many_publications MAX_MESSAGES)]"
proof -
  from p have len: "length (publications mgr) = MAX_MESSAGES"
    by (simp add: packed_pubs_iff)
  from new have none: "find_publication (publications mgr) T 0 = None"
    by (simp add: find_publication_None_iff [OF len])
  note e = packed_find_empty_pub [OF p]
  show ?thesis
  proof (cases "k < MAX_MESSAGES")
    case False
    with e have "find_empty_pub (publications mgr) 0 = None" by simp
    from ens [unfolded ensure_publication_full [OF none this]] False show ?thesis
      by auto
  next
    case True
    with e have k: "find_empty_pub (publications mgr) 0 = Some k" by simp
    obtain h w where h: "orb_advertise env T initial_data (world st) = (h, w)"
      by (metis prod.exhaust)
    with accept have h0: "h \<noteq> 0"
      by (metis fst_conv)
    define s where "s = \<lparr>pub_id = T, pub_handle = h\<rparr>"
    have v: "pub_is_valid s"
      using h0 by (simp add: s_def pub_is_valid_def)
    from ens [unfolded ensure_publication_new [OF none k h]] h0
    have r: "r = Pub_slot k" and m: "mgr' = mgr\<lparr>publications := (publications mgr)[k := s]\<rparr>"
      and t: "trace st' = trace st @
          [PX4_INFO (Advertising T), Orb_advertise T (take (o_size env T) initial_data) h]"
      by (auto simp: s_def)
    note u = packed_pubs_update [OF p True v]
    from True len have "pub_at mgr' r = s"
      by (simp add: r m)
    with True r m t u h0 show ?thesis
      by (auto simp: advertised_def s_def)
  qed
qed

lemma ensure_publications_packed:
  assumes accept: "\<forall>T bytes w. fst (orb_advertise env T bytes w) \<noteq> 0"
    and p: "packed_pubs (publications mgr) k"
    and d: "distinct (advertised mgr @ map fst Ps)"
    and run: "ensure_publications env Ps mgr st = (mgr', st')"
  shows "packed_pubs (publications mgr') (min MAX_MESSAGES (k + length Ps)) \<and>
         advertised mgr' = take MAX_MESSAGES (advertised mgr @ map fst Ps) \<and>
         ensure_publication_refs env Ps mgr st =
           map Pub_slot [k..<min MAX_MESSAGES (k + length Ps)] @
           replicate (k + length Ps - MAX_MESSAGES) Invalid_pub \<and>
         (\<exists>d. trace st' = trace st @ d \<and>
              occurrences pub_capacity_error d = k + length Ps - MAX_MESSAGES)"
  using p d run
proof (induction Ps arbitrary: k mgr st)
  case Nil
  then show ?case
    using packed_advertised_length [OF Nil.prems(1)]
    by (auto simp: packed_pubs_iff min_def)
next
  case (Cons P Ps)
  obtain T initial_data where P: "P = (T, initial_data)"
    by (metis prod.exhaust)
  obtain r mgr1 st1 where e: "ensure_publication env T initial_data mgr st = (r, mgr1, st1)"
    by (metis prod.exhaust)
  with Cons.prems(3) P have run1: "ensure_publications env Ps mgr1 st1 = (mgr', st')"
    by simp
  from Cons.prems(2) P have new: "T \<notin> set (advertised mgr)"
    by auto
  note step = ensure_publication_packed [OF accept Cons.prems(1) new e]
  note len = packed_advertised_length [OF Cons.prems(1)]
  from Cons.prems(1) have kle: "k \<le> MAX_MESSAGES"
    by (simp add: packed_pubs_iff)
  show ?case
  proof (cases "k < MAX_MESSAGES")
    case True
    with step obtain h where r: "r = Pub_slot k"
      and p1: "packed_pubs (publications mgr1) (Suc k)"
      and s1: "advertised mgr1 = advertised mgr @ [T]"
      and t1: "trace st1 = trace st @
          [PX4_INFO (Advertising T), Orb_advertise T (take (o_size env T) initial_data) h]"
      by auto
    from Cons.prems(2) s1 P have d1: "distinct (advertised mgr1 @ map fst Ps)"
      by simp
    from Cons.IH [OF p1 d1 run1] obtain d2 where
      ih: "packed_pubs (publications mgr') (min MAX_MESSAGES (Suc k + length Ps))"
        "advertised mgr' = take MAX_MESSAGES (advertised mgr1 @ map fst Ps)"
        "ensure_publication_refs env Ps mgr1 st1 =
           map Pub_slot [Suc k..<min MAX_MESSAGES (Suc k + length Ps)] @
           replicate (Suc k + length Ps - MAX_MESSAGES) Invalid_pub"
        "trace st' = trace st1 @ d2"
        "occurrences pub_capacity_error d2 = Suc k + length Ps - MAX_MESSAGES"
      by blast
    from True have "[k..<min MAX_MESSAGES (k + length (P # Ps))] =
        k # [Suc k..<min MAX_MESSAGES (Suc k + length Ps)]"
      by (simp add: upt_conv_Cons)
    with ih e r s1 t1 P show ?thesis
      by simp
  next
    case False
    with kle have k: "k = MAX_MESSAGES" by simp
    from step False have r: "r = Invalid_pub" and m: "mgr1 = mgr"
      and t1: "trace st1 = trace st @ [PX4_ERR (Too_many_publications MAX_MESSAGES)]"
      by auto
    from Cons.prems(2) have d1: "distinct (advertised mgr @ map fst Ps)"
      by simp
    from Cons.IH [OF Cons.prems(1) d1 run1 [unfolded m]] obtain d2 where
      ih: "packed_pubs (publications mgr') (min MAX_MESSAGES (k + length Ps))"
        "advertised mgr' = take MAX_MESSAGES (advertised mgr @ map fst Ps)"
        "ensure_publication_refs env Ps mgr st1 =
           map Pub_slot [k..<min MAX_MESSAGES (k + length Ps)] @
           replicate (k + length Ps - MAX_MESSAGES) Invalid_pub"
        "trace st' = trace st1 @ d2"
        "occurrences pub_capacity_error d2 = k + length Ps - MAX_MESSAGES"
      by blast
    with e r m t1 k len P show ?thesis
      by (simp add: min_def)
  qed
qed

subsection \<open>What a relay binds in its first cycle\<close>

lemma input_topics_append [simp]: "input_topics (a @ b) = input_topics a @ input_topics b"
  by (induction a rule: input_topics.induct) simp_all

lemma input_write_quiet2:
  assumes "input_write env m d"
  shows "input_topics d = [] \<and> occurrences sub_capacity_error d = 0"
  using assms by (rule input_write_cases) simp_all

lemma input_transfer_quiet2:
  assumes "input_transfer env m h d"
  shows "input_topics d = [] \<and> occurrences sub_capacity_error d = 0"
  using assms by (rule input_transfer_cases) (auto dest: input_write_quiet2)

lemma input_poll_quiet2:
  assumes "input_poll env m h d"
  shows "input_topics d = [] \<and> occurrences sub_capacity_error d = 0"
  using assms by (rule input_poll_cases) (auto dest: input_transfer_quiet2)

lemma input_iteration_pool:
  assumes len: "length (subscriptions mgr) = MAX_MESSAGES"
    and it: "input_iteration env i mgr st = (mgr', st')"
  shows "(\<exists>error m. error \<noteq> FFI_SUCCESS \<and> mgr' = mgr \<and>
            trace st' = trace st @
              [Get_input_id i error m, PX4_ERR (Failed_input_id i (ffi_error_to_string error))]) \<or>
         (\<exists>m st1 r mgr1 st2 d2.
            trace st1 = trace st @ [Get_input_id i FFI_SUCCESS m] \<and>
            ensure_subscription env m mgr st1 = (r, mgr1, st2) \<and>
            subscriptions mgr' = subscriptions mgr1 \<and>
            trace st' = trace st2 @ d2 \<and>
            (if sub_is_valid (sub_at mgr1 r)
             then input_poll env m (sub_handle (sub_at mgr1 r)) d2 else d2 = []))"
proof -
  obtain error m st0 where c: "call (rust_get_input_message_id env i) st = ((error, m), st0)"
    by (metis prod.exhaust)
  define st1 where "st1 = emit (Get_input_id i error m) st0"
  have t1: "trace st1 = trace st @ [Get_input_id i error m]"
    by (simp add: st1_def emit_def call_trace [OF c])
  show ?thesis
  proof (cases "error = FFI_SUCCESS")
    case False
    with it c have "mgr' = mgr" "st' = emit (PX4_ERR (Failed_input_id i (ffi_error_to_string error))) st1"
      by (auto simp: input_iteration_def Let_def st1_def)
    with False t1 show ?thesis
      by (auto simp: emit_def)
  next
    case True
    obtain r mgr1 st2 where e: "ensure_subscription env m mgr st1 = (r, mgr1, st2)"
      by (metis prod.exhaust)
    from ensure_subscription_binding [OF len e]
    have idm: "sub_is_valid (sub_at mgr1 r) \<Longrightarrow> sub_id (sub_at mgr1 r) = m"
      by (auto simp: sub_is_valid_def)
    have rest: "(case check_updated env (sub_at mgr1 r) st2 of (updated, st3) \<Rightarrow>
         if updated then
           let message_size = o_size env m in
           if message_size > MAX_MESSAGE_SIZE
           then (mgr1, emit (PX4_ERR (Size_exceeds_max message_size MAX_MESSAGE_SIZE m)) st3)
           else
             (case copy_data env (sub_at mgr1 r) (in_buffer mgr1) st3 of ((copied, buffer), st4) \<Rightarrow>
              let mgr2 = mgr1\<lparr>in_buffer := buffer\<rparr> in
              if copied then
                (case call (rust_write_input_message env m buffer message_size) st4 of
                   (result, st5) \<Rightarrow>
                     let st6 = emit (Write_input m (take message_size buffer) message_size result) st5 in
                     if result \<noteq> FFI_SUCCESS
                     then (mgr2, emit (PX4_ERR (Failed_write_input m (ffi_error_to_string result))) st6)
                     else (mgr2, st6))
              else (mgr2, st4))
         else (mgr1, st3)) = (mgr', st')"
      using it c True e unfolding input_iteration_def st1_def by simp
    note r = input_relay_poll [OF rest]
    have "\<exists>d2. trace st' = trace st2 @ d2 \<and>
            (if sub_is_valid (sub_at mgr1 r)
             then input_poll env m (sub_handle (sub_at mgr1 r)) d2 else d2 = [])"
    proof (cases "sub_is_valid (sub_at mgr1 r)")
      case False
      with r(2) show ?thesis by simp
    next
      case v: True
      from r(3) [OF v idm [OF v]] v show ?thesis by simp
    qed
    with t1 True e r(1) show ?thesis
      by blast
  qed
qed

lemma process_input_messages_first_bound:
  assumes accept: "\<forall>T w. 0 \<le> fst (orb_subscribe env T w)"
    and run: "process_input_messages env InputManager_init st = Inr (im', st')"
    and dis: "distinct (input_topics (emitted st st'))"
  shows "subscribed im' = take MAX_MESSAGES (input_topics (emitted st st')) \<and>
         occurrences sub_capacity_error (emitted st st') =
           length (input_topics (emitted st st')) - MAX_MESSAGES \<and>
         (\<forall>T. occurrences (check_call T) (emitted st st') =
            (if T \<in> set (take MAX_MESSAGES (input_topics (emitted st st'))) then 1 else 0))"
proof -
  define R where "R = (\<lambda>(i :: nat) mgr a. distinct (input_topics a) \<longrightarrow>
      packed_subs (subscriptions mgr) (min MAX_MESSAGES (length (input_topics a))) \<and>
      subscribed mgr = take MAX_MESSAGES (input_topics a) \<and>
      occurrences sub_capacity_error a = length (input_topics a) - MAX_MESSAGES \<and>
      (\<forall>T. occurrences (check_call T) a =
         (if T \<in> set (take MAX_MESSAGES (input_topics a)) then 1 else 0)))"
  have init: "R 0 InputManager_init []"
    using packed_init by (simp add: R_def subscribed_init)
  have step: "R (Suc i) mgr' (a @ d)"
    if len: "length (subscriptions mgr) = MAX_MESSAGES" and r: "R i mgr a"
      and it: "input_iteration env i mgr st = (mgr', st')" and t: "trace st' = trace st @ d"
    for i mgr st mgr' st' a d
    unfolding R_def
  proof
    assume dis: "distinct (input_topics (a @ d))"
    then have da: "distinct (input_topics a)" by simp
    define n where "n = length (input_topics a)"
    from r da have p: "packed_subs (subscriptions mgr) (min MAX_MESSAGES n)"
      and s: "subscribed mgr = take MAX_MESSAGES (input_topics a)"
      and c: "occurrences sub_capacity_error a = n - MAX_MESSAGES"
      and k: "\<And>T. occurrences (check_call T) a =
         (if T \<in> set (take MAX_MESSAGES (input_topics a)) then 1 else 0)"
      by (simp_all add: R_def n_def)
    from input_iteration_pool [OF len it]
    show "packed_subs (subscriptions mgr') (min MAX_MESSAGES (length (input_topics (a @ d)))) \<and>
      subscribed mgr' = take MAX_MESSAGES (input_topics (a @ d)) \<and>
      occurrences sub_capacity_error (a @ d) = length (input_topics (a @ d)) - MAX_MESSAGES \<and>
      (\<forall>T. occurrences (check_call T) (a @ d) =
         (if T \<in> set (take MAX_MESSAGES (input_topics (a @ d))) then 1 else 0))"
    proof (elim disjE exE conjE)
      fix error m
      assume u: "error \<noteq> FFI_SUCCESS" "mgr' = mgr"
        "trace st' = trace st @
           [Get_input_id i error m, PX4_ERR (Failed_input_id i (ffi_error_to_string error))]"
      with t have "d = [Get_input_id i error m, PX4_ERR (Failed_input_id i (ffi_error_to_string error))]"
        by simp
      with u p s c k show ?thesis
        by (simp add: n_def)
    next
      fix m st1 r mgr1 st2 d2
      assume t1: "trace st1 = trace st @ [Get_input_id i FFI_SUCCESS m]"
        and e: "ensure_subscription env m mgr st1 = (r, mgr1, st2)"
        and m': "subscriptions mgr' = subscriptions mgr1"
        and t': "trace st' = trace st2 @ d2"
        and d2: "if sub_is_valid (sub_at mgr1 r)
             then input_poll env m (sub_handle (sub_at mgr1 r)) d2 else d2 = []"
      from ensure_subscription_binding [OF len e] obtain d1 where t2: "trace st2 = trace st1 @ d1"
        by blast
      from t t1 t2 t' have d: "d = Get_input_id i FFI_SUCCESS m # d1 @ d2"
        by simp
      have q2: "input_topics d2 = [] \<and> occurrences sub_capacity_error d2 = 0"
        using d2 input_poll_quiet2 [of env m _ d2] by (auto split: if_splits)
      have s': "subscribed mgr' = subscribed mgr1"
        by (simp add: subscribed_def m')
      note step = ensure_subscription_packed [OF accept p _ e]
      show ?thesis
      proof (cases "n < MAX_MESSAGES")
        case True
        then have tk: "take MAX_MESSAGES (input_topics a) = input_topics a"
          by (simp add: n_def)
        have d1t: "input_topics d1 = []"
        proof -
          have "m \<notin> set (subscribed mgr) \<or> m \<in> set (subscribed mgr)" by simp
          from ensure_subscription_binding [OF len e] t2 show ?thesis
            by auto
        qed
        from dis d d1t q2 have new: "m \<notin> set (input_topics a)"
          by simp
        with s tk have "m \<notin> set (subscribed mgr)" by simp
        from step [OF this] True obtain h where r: "r = Sub_slot (min MAX_MESSAGES n)"
          and p1: "packed_subs (subscriptions mgr1) (Suc (min MAX_MESSAGES n))"
          and s1: "subscribed mgr1 = subscribed mgr @ [m]"
          and h: "0 \<le> h" "sub_at mgr1 r = \<lparr>sub_id = m, sub_handle = h\<rparr>"
          and t2': "trace st2 = trace st1 @ [PX4_INFO (Subscribing m), Orb_subscribe m h]"
          by (auto simp: min_def)
        from t2 t2' have d1: "d1 = [PX4_INFO (Subscribing m), Orb_subscribe m h]"
          by simp
        from h d2 have poll: "input_poll env m h d2"
          by (simp add: sub_is_valid_def)
        note pp = input_poll_polls [OF poll] input_poll_quiet2 [OF poll]
        from True have mn: "min MAX_MESSAGES (length (input_topics (a @ d))) = Suc (min MAX_MESSAGES n)"
          using d d1 pp by (simp add: n_def min_def)
        have "\<And>T. occurrences (check_call T) (a @ d) =
           (if T \<in> set (take MAX_MESSAGES (input_topics (a @ d))) then 1 else 0)"
          using k tk new d d1 pp True by (auto simp: n_def)
        with p1 s1 s s' m' mn c tk True d d1 pp show ?thesis
          by (auto simp: n_def)
      next
        case False
        then have full: "min MAX_MESSAGES n = MAX_MESSAGES"
          by simp
        have sub: "set (subscribed mgr) \<subseteq> set (input_topics a)"
          using s by (metis set_take_subset)
        have "m \<notin> set (subscribed mgr)"
        proof
          assume in_pool: "m \<in> set (subscribed mgr)"
          then have "find_subscription (subscriptions mgr) m 0 \<noteq> None"
            by (simp add: find_subscription_None_iff [OF len])
          then obtain j where "find_subscription (subscriptions mgr) m 0 = Some j"
            by auto
          with e have "st2 = st1"
            by (simp add: ensure_subscription_found)
          with t2 have "d1 = []" by simp
          with dis d in_pool sub show False
            by auto
        qed
        from step [OF this] False full have r: "r = Invalid_sub" and m1: "mgr1 = mgr"
          and t2': "trace st2 = trace st1 @ [PX4_ERR (Too_many_subscriptions MAX_MESSAGES)]"
          by auto
        from t2 t2' have d1: "d1 = [PX4_ERR (Too_many_subscriptions MAX_MESSAGES)]"
          by simp
        from r d2 have d2': "d2 = []"
          by (simp add: OrbSubscription_default_def sub_is_valid_def)
        from False have tk: "take MAX_MESSAGES (input_topics a @ [m]) = take MAX_MESSAGES (input_topics a)"
          by (simp add: n_def)
        from p s c k s' m' m1 d d1 d2' False tk show ?thesis
          by (auto simp: n_def min_def)
      qed
    qed
  qed
  obtain error n w where cq: "rust_get_input_message_count env (world st) = ((error, n), w)"
    by (metis prod.exhaust)
  show ?thesis
  proof (cases "error = FFI_SUCCESS")
    case False
    with run cq have "im' = InputManager_init"
      "emitted st st' = [PX4_ERR (Failed_input_count (ffi_error_to_string error))]"
      by (auto simp: process_input_messages_def call_def emit_def emitted_def)
    then show ?thesis
      by (simp add: subscribed_init)
  next
    case True
    with run cq have loop: "input_loop env 0 n InputManager_init (st\<lparr>world := w\<rparr>) = (im', st')"
      by (auto simp: process_input_messages_def call_def split: if_splits)
    have "length (subscriptions im') = MAX_MESSAGES \<and>
        (\<exists>d. trace st' = trace (st\<lparr>world := w\<rparr>) @ d \<and> R n im' ([] @ d))"
      by (rule input_loop_rule [where R = R, OF _ InputManager_init_length init _ loop])
         (use step in auto)
    then have "R n im' (emitted st st')"
      by (auto simp: emitted_def)
    with dis show ?thesis
      by (simp add: R_def)
  qed
qed

lemma output_topics_append [simp]:
  "output_topics env (a @ b) = output_topics env a @ output_topics env b"
  by (induction env a rule: output_topics.induct) simp_all

lemma output_iteration_pool:
  assumes len: "length (publications mgr) = MAX_MESSAGES"
    and it: "output_iteration env i mgr st = (mgr', st')"
  shows "(publications mgr' = publications mgr \<and>
          (\<exists>d. trace st' = trace st @ d \<and> output_topics env d = [] \<and>
               occurrences pub_capacity_error d = 0 \<and>
               (\<forall>T. occurrences (publish_call T) d = 0))) \<or>
         (\<exists>m mgr1 st5 r st6 d1.
            publications mgr1 = publications mgr \<and>
            trace st5 = trace st @
              [Get_output_id i FFI_SUCCESS m, Has_update m FFI_SUCCESS True,
               Read_output m FFI_SUCCESS (o_size env m)] \<and>
            ensure_publication env m (out_buffer mgr1) mgr1 st5 = (r, mgr', st6) \<and>
            trace st' = trace st6 @ d1 \<and>
            (if pub_is_valid (pub_at mgr' r)
             then \<exists>bytes rc. d1 = [Orb_publish (pub_id (pub_at mgr' r)) (pub_handle (pub_at mgr' r)) bytes rc]
             else d1 = []))"
proof -
  obtain error m st0 where c: "call (rust_get_output_message_id env i) st = ((error, m), st0)"
    by (metis prod.exhaust)
  define st1 where "st1 = emit (Get_output_id i error m) st0"
  have t1: "trace st1 = trace st @ [Get_output_id i error m]"
    by (simp add: st1_def emit_def call_trace [OF c])
  show ?thesis
  proof (cases "error = FFI_SUCCESS")
    case False
    with it c have "mgr' = mgr" "st' = emit (PX4_ERR (Failed_output_id i (ffi_error_to_string error))) st1"
      by (auto simp: output_iteration_def Let_def st1_def)
    with t1 show ?thesis
      by (auto simp: emit_def)
  next
    case True
    obtain error2 has_update st2 where
      h: "call (rust_output_message_has_update env m) st1 = ((error2, has_update), st2)"
      by (metis prod.exhaust)
    define st3 where "st3 = emit (Has_update m error2 has_update) st2"
    have t3: "trace st3 = trace st @ [Get_output_id i FFI_SUCCESS m, Has_update m error2 has_update]"
      using True by (simp add: st3_def emit_def call_trace [OF h] t1)
    have rest: "(if error2 \<noteq> FFI_SUCCESS
         then (mgr, emit (PX4_ERR (Failed_check_update m (ffi_error_to_string error2))) st3)
         else if has_update then
           let message_size = o_size env m in
           if message_size > MAX_MESSAGE_SIZE
           then (mgr, emit (PX4_ERR (Size_exceeds_max message_size MAX_MESSAGE_SIZE m)) st3)
           else
             (case call (rust_read_output_message env m MAX_MESSAGE_SIZE) st3 of
                ((result, bytes_read, bytes), st4) \<Rightarrow>
                  let st5 = emit (Read_output m result bytes_read) st4;
                      mgr1 = mgr\<lparr>out_buffer := store bytes (out_buffer mgr)\<rparr>
                  in
                  if result = FFI_SUCCESS \<and> bytes_read = message_size then
                    (case ensure_publication env m (out_buffer mgr1) mgr1 st5 of
                       (pub, mgr2, st6) \<Rightarrow>
                         if pub_is_valid (pub_at mgr2 pub)
                         then (mgr2, snd (publish env (pub_at mgr2 pub) (out_buffer mgr2) st6))
                         else (mgr2, st6))
                  else if result \<noteq> FFI_SUCCESS
                  then (mgr1, emit (PX4_ERR (Failed_read_output m (ffi_error_to_string result))) st5)
                  else (mgr1, emit (PX4_ERR (Size_mismatch m message_size bytes_read)) st5))
         else (mgr, st3)) = (mgr', st')"
      using it c True h unfolding output_iteration_def st1_def st3_def by (simp add: Let_def)
    show ?thesis
    proof (cases "error2 = FFI_SUCCESS")
      case False
      with rest have "mgr' = mgr" "st' = emit (PX4_ERR (Failed_check_update m (ffi_error_to_string error2))) st3"
        by auto
      with t3 show ?thesis
        by (auto simp: emit_def)
    next
      case ok: True
      show ?thesis
      proof (cases has_update)
        case False
        with rest ok have "mgr' = mgr" "st' = st3" by auto
        with t3 show ?thesis
          by auto
      next
        case upd: True
        show ?thesis
        proof (cases "o_size env m > MAX_MESSAGE_SIZE")
          case True
          with rest ok upd have "mgr' = mgr"
            "st' = emit (PX4_ERR (Size_exceeds_max (o_size env m) MAX_MESSAGE_SIZE m)) st3"
            by (auto simp: Let_def)
          with t3 show ?thesis
            by (auto simp: emit_def)
        next
          case small: False
          obtain result n bytes st4 where
            rd: "call (rust_read_output_message env m MAX_MESSAGE_SIZE) st3 = ((result, n, bytes), st4)"
            by (metis prod.exhaust)
          define st5 where "st5 = emit (Read_output m result n) st4"
          define mgr1 where "mgr1 = mgr\<lparr>out_buffer := store bytes (out_buffer mgr)\<rparr>"
          have t5: "trace st5 = trace st @
              [Get_output_id i FFI_SUCCESS m, Has_update m FFI_SUCCESS True, Read_output m result n]"
            using ok upd by (simp add: st5_def emit_def call_trace [OF rd] t3)
          have p1: "publications mgr1 = publications mgr"
            by (simp add: mgr1_def)
          have rest2: "(if result = FFI_SUCCESS \<and> n = o_size env m then
                    (case ensure_publication env m (out_buffer mgr1) mgr1 st5 of
                       (pub, mgr2, st6) \<Rightarrow>
                         if pub_is_valid (pub_at mgr2 pub)
                         then (mgr2, snd (publish env (pub_at mgr2 pub) (out_buffer mgr2) st6))
                         else (mgr2, st6))
                  else if result \<noteq> FFI_SUCCESS
                  then (mgr1, emit (PX4_ERR (Failed_read_output m (ffi_error_to_string result))) st5)
                  else (mgr1, emit (PX4_ERR (Size_mismatch m (o_size env m) n)) st5)) = (mgr', st')"
            using rest ok upd small rd unfolding st5_def mgr1_def by (simp add: Let_def)
          show ?thesis
          proof (cases "result = FFI_SUCCESS \<and> n = o_size env m")
            case False
            with rest2 have "mgr' = mgr1"
              "st' = (if result \<noteq> FFI_SUCCESS
                  then emit (PX4_ERR (Failed_read_output m (ffi_error_to_string result))) st5
                  else emit (PX4_ERR (Size_mismatch m (o_size env m) n)) st5)"
              by (auto split: if_splits)
            with False t5 p1 show ?thesis
              by (auto simp: emit_def)
          next
            case match: True
            obtain pub mgr2 st6 where
              e: "ensure_publication env m (out_buffer mgr1) mgr1 st5 = (pub, mgr2, st6)"
              by (metis prod.exhaust)
            from rest2 match e have mgr': "mgr' = mgr2"
              and st': "st' = (if pub_is_valid (pub_at mgr2 pub)
                   then snd (publish env (pub_at mgr2 pub) (out_buffer mgr2) st6) else st6)"
              by (auto split: if_splits)
            have "\<exists>d1. trace st' = trace st6 @ d1 \<and>
              (if pub_is_valid (pub_at mgr2 pub)
               then \<exists>bytes rc. d1 = [Orb_publish (pub_id (pub_at mgr2 pub)) (pub_handle (pub_at mgr2 pub)) bytes rc]
               else d1 = [])"
            proof (cases "pub_is_valid (pub_at mgr2 pub)")
              case False
              with st' show ?thesis by simp
            next
              case v: True
              obtain ok st7 where p: "publish env (pub_at mgr2 pub) (out_buffer mgr2) st6 = (ok, st7)"
                by (metis prod.exhaust)
              from publish_valid [OF v p] st' v p show ?thesis
                by auto
            qed
            with match t5 p1 e mgr' show ?thesis
              by blast
          qed
        qed
      qed
    qed
  qed
qed

lemma process_output_messages_first_bound:
  assumes accept: "\<forall>T bytes w. fst (orb_advertise env T bytes w) \<noteq> 0"
    and run: "process_output_messages env OutputManager_init st = Inr (om', st')"
    and dis: "distinct (output_topics env (emitted st st'))"
  shows "advertised om' = take MAX_MESSAGES (output_topics env (emitted st st')) \<and>
         occurrences pub_capacity_error (emitted st st') =
           length (output_topics env (emitted st st')) - MAX_MESSAGES \<and>
         (\<forall>T. occurrences (publish_call T) (emitted st st') =
            (if T \<in> set (take MAX_MESSAGES (output_topics env (emitted st st'))) then 1 else 0))"
proof -
  define R where "R = (\<lambda>(i :: nat) mgr a. distinct (output_topics env a) \<longrightarrow>
      packed_pubs (publications mgr) (min MAX_MESSAGES (length (output_topics env a))) \<and>
      advertised mgr = take MAX_MESSAGES (output_topics env a) \<and>
      occurrences pub_capacity_error a = length (output_topics env a) - MAX_MESSAGES \<and>
      (\<forall>T. occurrences (publish_call T) a =
         (if T \<in> set (take MAX_MESSAGES (output_topics env a)) then 1 else 0)))"
  have init: "R 0 OutputManager_init []"
    using packed_pubs_init by (simp add: R_def advertised_init)
  have step: "R (Suc i) mgr' (a @ d)"
    if len: "length (publications mgr) = MAX_MESSAGES" and r: "R i mgr a"
      and it: "output_iteration env i mgr st = (mgr', st')" and t: "trace st' = trace st @ d"
    for i mgr st mgr' st' a d
    unfolding R_def
  proof
    assume dis: "distinct (output_topics env (a @ d))"
    then have da: "distinct (output_topics env a)" by simp
    define n where "n = length (output_topics env a)"
    from r da have p: "packed_pubs (publications mgr) (min MAX_MESSAGES n)"
      and s: "advertised mgr = take MAX_MESSAGES (output_topics env a)"
      and c: "occurrences pub_capacity_error a = n - MAX_MESSAGES"
      and k: "\<And>T. occurrences (publish_call T) a =
         (if T \<in> set (take MAX_MESSAGES (output_topics env a)) then 1 else 0)"
      by (simp_all add: R_def n_def)
    from output_iteration_pool [OF len it]
    show "packed_pubs (publications mgr') (min MAX_MESSAGES (length (output_topics env (a @ d)))) \<and>
      advertised mgr' = take MAX_MESSAGES (output_topics env (a @ d)) \<and>
      occurrences pub_capacity_error (a @ d) = length (output_topics env (a @ d)) - MAX_MESSAGES \<and>
      (\<forall>T. occurrences (publish_call T) (a @ d) =
         (if T \<in> set (take MAX_MESSAGES (output_topics env (a @ d))) then 1 else 0))"
    proof (elim disjE exE conjE)
      fix d'
      assume u: "publications mgr' = publications mgr" "trace st' = trace st @ d'"
        "output_topics env d' = []" "occurrences pub_capacity_error d' = 0"
        "\<forall>T. occurrences (publish_call T) d' = 0"
      with t have "d = d'" by simp
      with u p s c k show ?thesis
        by (simp add: n_def advertised_def)
    next
      fix m mgr1 st5 r st6 d1
      assume p1: "publications mgr1 = publications mgr"
        and t5: "trace st5 = trace st @
              [Get_output_id i FFI_SUCCESS m, Has_update m FFI_SUCCESS True,
               Read_output m FFI_SUCCESS (o_size env m)]"
        and e: "ensure_publication env m (out_buffer mgr1) mgr1 st5 = (r, mgr', st6)"
        and t': "trace st' = trace st6 @ d1"
        and d1: "if pub_is_valid (pub_at mgr' r)
             then \<exists>bytes rc. d1 = [Orb_publish (pub_id (pub_at mgr' r)) (pub_handle (pub_at mgr' r)) bytes rc]
             else d1 = []"
      have a1: "advertised mgr1 = advertised mgr"
        by (simp add: advertised_def p1)
      have sub: "set (advertised mgr) \<subseteq> set (output_topics env a)"
        using s by (metis set_take_subset)
      from p p1 have pk: "packed_pubs (publications mgr1) (min MAX_MESSAGES n)"
        by simp
      have pre: "\<exists>de. trace st6 = trace st5 @ de"
        using e by (auto simp: ensure_publication_def OrbPublication_new_def call_def emit_def
            Let_def split: option.splits prod.splits if_splits)
      then obtain de where t6: "trace st6 = trace st5 @ de"
        by blast
      from t t5 t6 t' have d: "d = [Get_output_id i FFI_SUCCESS m, Has_update m FFI_SUCCESS True,
               Read_output m FFI_SUCCESS (o_size env m)] @ de @ d1"
        by simp
      from dis d have new: "m \<notin> set (output_topics env a)"
        by simp
      with sub a1 have "m \<notin> set (advertised mgr1)"
        by auto
      note step = ensure_publication_packed [OF accept pk this e]
      show ?thesis
      proof (cases "n < MAX_MESSAGES")
        case True
        then have tk: "take MAX_MESSAGES (output_topics env a) = output_topics env a"
          by (simp add: n_def)
        from step True obtain h where r: "r = Pub_slot (min MAX_MESSAGES n)"
          and p': "packed_pubs (publications mgr') (Suc (min MAX_MESSAGES n))"
          and s': "advertised mgr' = advertised mgr1 @ [m]"
          and h: "h \<noteq> 0" "pub_at mgr' r = \<lparr>pub_id = m, pub_handle = h\<rparr>"
          and t6': "trace st6 = trace st5 @
              [PX4_INFO (Advertising m), Orb_advertise m (take (o_size env m) (out_buffer mgr1)) h]"
          by (auto simp: min_def)
        from t6 t6' have de: "de =
            [PX4_INFO (Advertising m), Orb_advertise m (take (o_size env m) (out_buffer mgr1)) h]"
          by simp
        from h d1 obtain bytes rc where d1': "d1 = [Orb_publish m h bytes rc]"
          by (auto simp: pub_is_valid_def)
        from True have mn: "min MAX_MESSAGES (length (output_topics env (a @ d))) = Suc (min MAX_MESSAGES n)"
          using d de d1' by (simp add: n_def min_def)
        have "\<And>T. occurrences (publish_call T) (a @ d) =
           (if T \<in> set (take MAX_MESSAGES (output_topics env (a @ d))) then 1 else 0)"
          using k tk new d de d1' True by (auto simp: n_def)
        with p' s' s a1 mn c tk True d de d1' show ?thesis
          by (auto simp: n_def)
      next
        case False
        from step False have r: "r = Invalid_pub" and m1: "mgr' = mgr1"
          and t6': "trace st6 = trace st5 @ [PX4_ERR (Too_many_publications MAX_MESSAGES)]"
          by auto
        from t6 t6' have de: "de = [PX4_ERR (Too_many_publications MAX_MESSAGES)]"
          by simp
        from r d1 have d1': "d1 = []"
          by (simp add: OrbPublication_default_def pub_is_valid_def)
        from False have tk: "take MAX_MESSAGES (output_topics env a @ [m]) =
            take MAX_MESSAGES (output_topics env a)"
          by (simp add: n_def)
        from p s c k a1 p1 m1 d de d1' False tk show ?thesis
          by (auto simp: n_def min_def)
      qed
    qed
  qed
  obtain error n w where cq: "rust_get_output_message_count env (world st) = ((error, n), w)"
    by (metis prod.exhaust)
  show ?thesis
  proof (cases "error = FFI_SUCCESS")
    case False
    with run cq have "om' = OutputManager_init"
      "emitted st st' = [PX4_ERR (Failed_output_count (ffi_error_to_string error))]"
      by (auto simp: process_output_messages_def call_def emit_def emitted_def)
    then show ?thesis
      by (simp add: advertised_init)
  next
    case True
    with run cq have loop: "output_loop env 0 n OutputManager_init (st\<lparr>world := w\<rparr>) = (om', st')"
      by (auto simp: process_output_messages_def call_def split: if_splits)
    have "length (publications om') = MAX_MESSAGES \<and>
        (\<exists>d. trace st' = trace (st\<lparr>world := w\<rparr>) @ d \<and> R n om' ([] @ d))"
      by (rule output_loop_rule [where R = R, OF _ OutputManager_init_length init _ loop])
         (use step in auto)
    then have "R n om' (emitted st st')"
      by (auto simp: emitted_def)
    with dis show ?thesis
      by (simp add: R_def)
  qed
qed
subsection \<open>Example runs\<close>

lemmas run_defs = process_input_messages_def process_output_messages_def
  input_loop.simps output_loop.simps input_iteration_def output_iteration_def
  ensure_subscription_def ensure_publication_def
  find_subscription.simps find_empty_sub.simps find_publication.simps find_empty_pub.simps
  OrbSubscription_new_def OrbPublication_new_def sub_move_assign_def sub_destroy_def
  check_updated_def copy_data_def publish_def sub_is_valid_def pub_is_valid_def
  call_def emit_def exec_def store_def Let_def
  InputManager_init_def OutputManager_init_def OrbSubscription_default_def
  OrbPublication_default_def MAX_MESSAGES_def MAX_MESSAGE_SIZE_def sys0_def

lemma replicate_16: "replicate 16 x = [x, x, x, x, x, x, x, x, x, x, x, x, x, x, x, x]"
  by (simp add: numeral_eq_Suc)

lemma replicate_15: "replicate 15 x = [x, x, x, x, x, x, x, x, x, x, x, x, x, x, x]"
  by (simp add: numeral_eq_Suc)

lemma emitted_sys0: "emitted sys0 st = trace st"
  by (simp add: emitted_def sys0_def)

lemma Inr_run:
  assumes "\<not> isl r \<and> events_of r = tr"
  obtains mgr st where "r = Inr (mgr, st)" "events_of r = trace st"
  using assms by (cases r) auto


lemma mock_output_run:
  "\<not> isl (process_output_messages mock_env OutputManager_init sys0) \<and>
   events_of (process_output_messages mock_env OutputManager_init sys0) =
     [Get_output_id 0 FFI_SUCCESS 8, Has_update 8 FFI_SUCCESS True, Read_output 8 FFI_SUCCESS 4,
      PX4_INFO (Advertising 8), Orb_advertise 8 [5, 6, 7, 8] 9, Orb_publish 8 9 [5, 6, 7, 8] 0]"
  by (simp add: run_defs mock_env_def)

lemma oversize_input_run:
  "\<not> isl (process_input_messages oversize_env InputManager_init sys0) \<and>
   events_of (process_input_messages oversize_env InputManager_init sys0) =
     [Get_input_id 0 FFI_SUCCESS 7, PX4_INFO (Subscribing 7), Orb_subscribe 7 7,
      Orb_check 7 7 0 True, PX4_ERR (Size_exceeds_max 2000 1024 7)]"
  by (simp add: run_defs oversize_env_def mock_env_def)

lemma oversize_output_run:
  "\<not> isl (process_output_messages oversize_env OutputManager_init sys0) \<and>
   events_of (process_output_messages oversize_env OutputManager_init sys0) =
     [Get_output_id 0 FFI_SUCCESS 8, Has_update 8 FFI_SUCCESS True,
      PX4_ERR (Size_exceeds_max 2000 1024 8)]"
  by (simp add: run_defs oversize_env_def mock_env_def)

lemma short_read_run:
  "\<not> isl (process_output_messages short_read_env OutputManager_init sys0) \<and>
   events_of (process_output_messages short_read_env OutputManager_init sys0) =
     [Get_output_id 0 FFI_SUCCESS 8, Has_update 8 FFI_SUCCESS True, Read_output 8 FFI_SUCCESS 6,
      PX4_ERR (Size_mismatch 8 8 6)]"
  by (simp add: run_defs short_read_env_def mock_env_def)



lemma seventeen_ndebug_input_run:
  "\<not> isl (process_input_messages seventeen_ndebug_env InputManager_init sys0) \<and>
   input_topics (events_of (process_input_messages seventeen_ndebug_env InputManager_init sys0)) =
     [100, 101, 102, 103, 104, 105, 106, 107, 108, 109, 110, 111, 112, 113, 114, 115, 116]"
  by (simp add: run_defs seventeen_ndebug_env_def seventeen_env_def mock_env_def)

lemma seventeen_ndebug_output_run:
  "\<not> isl (process_output_messages seventeen_ndebug_env OutputManager_init sys0) \<and>
   output_topics seventeen_ndebug_env (events_of (process_output_messages seventeen_ndebug_env OutputManager_init sys0)) =
     [200, 201, 202, 203, 204, 205, 206, 207, 208, 209, 210, 211, 212, 213, 214, 215, 216]"
  by (simp add: run_defs seventeen_ndebug_env_def seventeen_env_def mock_env_def)


lemma returned:
  assumes "\<not> isl r"
  obtains mgr st where "r = Inr (mgr, st)" "events_of r = trace st" "pool_of r = Some mgr"
  using assms by (cases r) auto

subsection \<open>The sleep at the end of a cycle\<close>

lemma sleep_argument_within:
  "unat (now - loop_start_time) \<le> 10000 \<Longrightarrow>
     unat (sleep_argument loop_start_time now) = 10000 - unat (now - loop_start_time)"
  unfolding sleep_argument_def LOOP_INTERVAL_US_def
  by (simp add: unat_sub word_le_nat_alt)

lemma sleep_argument_beyond:
  "10000 < unat (now - loop_start_time) \<Longrightarrow>
     unat (sleep_argument loop_start_time now) = 2 ^ 64 + 10000 - unat (now - loop_start_time)"
  unfolding sleep_argument_def LOOP_INTERVAL_US_def
  by (simp add: unat_sub_if_size word_size)

lemma sleep_argument_10001: "sleep_argument 0 10001 = 18446744073709551615"
  unfolding sleep_argument_def LOOP_INTERVAL_US_def by code_simp

lemma overrun_cycle:
  "events_of (run_cycle overrun_env (InputManager_init, OutputManager_init) sys0) =
     [Get_input_id 0 FFI_SUCCESS 7, PX4_INFO (Subscribing 7), Orb_subscribe 7 7,
      Orb_check 7 7 0 True, Orb_copy 7 7 0, Write_input 7 [1, 2, 3, 4] 4 FFI_SUCCESS,
      App_update 0,
      Get_output_id 0 FFI_SUCCESS 8, Has_update 8 FFI_SUCCESS True, Read_output 8 FFI_SUCCESS 4,
      PX4_INFO (Advertising 8), Orb_advertise 8 [5, 6, 7, 8] 9, Orb_publish 8 9 [5, 6, 7, 8] 0,
      Usleep 18446744073709551615]"
  by (simp add: run_cycle_def parameters_update_def run_defs overrun_env_def mock_env_def
      sleep_argument_10001)

text \<open>
  C1. The claim: when a cycle takes longer than the 10 ms interval, the sleep is zero and
  the next cycle starts at once. The code subtracts the elapsed time from
  \<open>LOOP_INTERVAL_US\<close> in unsigned 64-bit arithmetic and does not clamp. For a cycle that
  took 10001 microseconds the argument of \<open>px4_usleep\<close> is \<open>2^64 - 1\<close>, and \<open>2^32 - 1\<close>
  once narrowed to a 32-bit \<open>useconds_t\<close>: the loop sleeps for more than an hour. The last
  event of a cycle whose engine step takes 10001 microseconds is this sleep.
\<close>

theorem C1_sleep_wraps_on_overrun:
  "sleep_argument 0 10001 = 18446744073709551615 \<and>
   (ucast (sleep_argument 0 10001) :: 32 word) = 4294967295 \<and>
   sleep_argument 0 10001 \<noteq> 0 \<and>
   last (events_of (run_cycle overrun_env (InputManager_init, OutputManager_init) sys0)) =
     Usleep 18446744073709551615"
proof -
  have "(ucast (18446744073709551615 :: 64 word) :: 32 word) = 4294967295"
    by code_simp
  then show ?thesis
    by (simp add: sleep_argument_10001 overrun_cycle)
qed

subsection \<open>One transfer for each update the relay sees\<close>



subsection \<open>More than 16 topics\<close>

text \<open>
  C3. The claim: exceeding the bound of 16 topics never crashes the program, for every
  reported topic count. Both relays start with \<open>assert(count <= MAX_MESSAGES)\<close>: when the
  engine reports 17 topics and assertions are compiled in, the relay aborts before it
  handles a single topic.
\<close>

theorem C3_counterexample:
  "\<not> ndebug seventeen_env \<and>
   fst (rust_get_input_message_count seventeen_env (world sys0)) = (FFI_SUCCESS, 17) \<and>
   fst (rust_get_output_message_count seventeen_env (world sys0)) = (FFI_SUCCESS, 17) \<and>
   process_input_messages seventeen_env InputManager_init sys0 = Inl Assertion_failed \<and>
   process_output_messages seventeen_env OutputManager_init sys0 = Inl Assertion_failed"
  by (simp add: process_input_messages_def process_output_messages_def call_def seventeen_env_def
      mock_env_def sys0_def MAX_MESSAGES_def)

text \<open>
  C3, amended. A relay aborts exactly when the count query succeeds, the reported count
  exceeds 16 and assertions are compiled in (\<open>NDEBUG\<close> is not defined). In every other case
  it goes on, whatever the count, and the excess is dropped by the pools. Pools: on a bus
  that accepts every subscription (every advertisement), a sequence of \<open>ensure\<close> calls for
  distinct topics, from the empty pool, binds the first 16 topics to the slots 0 to 15 in
  order and answers every later topic with the invalid sentinel and one capacity error.
  Relays: in a cycle that starts from the empty pool and returns, on such a bus, with
  distinct topics, the relay visits every index below the count; the input pool ends with
  the first 16 topics that resolved, each of them is polled once, every later topic is
  answered with one capacity error and is not polled; the publication pool ends with the
  first 16 topics whose read succeeded with the declared size, each of them is published
  once, every later one is answered with one capacity error and is not published.
\<close>

theorem C3_only_the_excess_is_dropped:
  "((process_input_messages env im st = Inl Assertion_failed) =
      (\<not> ndebug env \<and> fst (fst (rust_get_input_message_count env (world st))) = FFI_SUCCESS \<and>
       MAX_MESSAGES < snd (fst (rust_get_input_message_count env (world st))))) \<and>
   ((process_output_messages env om st = Inl Assertion_failed) =
      (\<not> ndebug env \<and> fst (fst (rust_get_output_message_count env (world st))) = FFI_SUCCESS \<and>
       MAX_MESSAGES < snd (fst (rust_get_output_message_count env (world st))))) \<and>
   ((\<forall>T w. 0 \<le> fst (orb_subscribe env T w)) \<longrightarrow> distinct Ts \<longrightarrow>
      subscribed (fst (ensure_subscriptions env Ts InputManager_init st)) = take MAX_MESSAGES Ts \<and>
      ensure_subscription_refs env Ts InputManager_init st =
        map Sub_slot [0..<min MAX_MESSAGES (length Ts)] @
        replicate (length Ts - MAX_MESSAGES) Invalid_sub \<and>
      occurrences sub_capacity_error
        (emitted st (snd (ensure_subscriptions env Ts InputManager_init st))) =
        length Ts - MAX_MESSAGES) \<and>
   ((\<forall>T bytes w. fst (orb_advertise env T bytes w) \<noteq> 0) \<longrightarrow> distinct (map fst Ps) \<longrightarrow>
      advertised (fst (ensure_publications env Ps OutputManager_init st)) =
        take MAX_MESSAGES (map fst Ps) \<and>
      ensure_publication_refs env Ps OutputManager_init st =
        map Pub_slot [0..<min MAX_MESSAGES (length Ps)] @
        replicate (length Ps - MAX_MESSAGES) Invalid_pub \<and>
      occurrences pub_capacity_error
        (emitted st (snd (ensure_publications env Ps OutputManager_init st))) =
        length Ps - MAX_MESSAGES) \<and>
   ((\<forall>T w. 0 \<le> fst (orb_subscribe env T w)) \<longrightarrow>
    process_input_messages env InputManager_init st = Inr (im', st') \<longrightarrow>
    distinct (input_topics (emitted st st')) \<longrightarrow>
      input_indices (emitted st st') =
        (if fst (fst (rust_get_input_message_count env (world st))) = FFI_SUCCESS
         then [0..<snd (fst (rust_get_input_message_count env (world st)))] else []) \<and>
      subscribed im' = take MAX_MESSAGES (input_topics (emitted st st')) \<and>
      occurrences sub_capacity_error (emitted st st') =
        length (input_topics (emitted st st')) - MAX_MESSAGES \<and>
      map (\<lambda>T. occurrences (check_call T) (emitted st st')) (input_topics (emitted st st')) =
        replicate (min MAX_MESSAGES (length (input_topics (emitted st st')))) 1 @
        replicate (length (input_topics (emitted st st')) - MAX_MESSAGES) 0) \<and>
   ((\<forall>T bytes w. fst (orb_advertise env T bytes w) \<noteq> 0) \<longrightarrow>
    process_output_messages env OutputManager_init su = Inr (om', su') \<longrightarrow>
    distinct (output_topics env (emitted su su')) \<longrightarrow>
      output_indices (emitted su su') =
        (if fst (fst (rust_get_output_message_count env (world su))) = FFI_SUCCESS
         then [0..<snd (fst (rust_get_output_message_count env (world su)))] else []) \<and>
      advertised om' = take MAX_MESSAGES (output_topics env (emitted su su')) \<and>
      occurrences pub_capacity_error (emitted su su') =
        length (output_topics env (emitted su su')) - MAX_MESSAGES \<and>
      map (\<lambda>T. occurrences (publish_call T) (emitted su su')) (output_topics env (emitted su su')) =
        replicate (min MAX_MESSAGES (length (output_topics env (emitted su su')))) 1 @
        replicate (length (output_topics env (emitted su su')) - MAX_MESSAGES) 0)"
proof -
  have split_counts: "map f xs = replicate (min n (length xs)) (1 :: nat) @ replicate (length xs - n) 0"
    if "distinct xs" "\<And>T. f T = (if T \<in> set (take n xs) then 1 else 0)" for f :: "nat \<Rightarrow> nat" and xs n
  proof -
    have "map f xs = map f (take n xs) @ map f (drop n xs)"
      by (metis append_take_drop_id map_append)
    moreover have "map f (take n xs) = map (\<lambda>T. 1) (take n xs)"
      using that(2) by (intro map_cong) auto
    then have "map f (take n xs) = replicate (length (take n xs)) 1"
      by (simp add: map_replicate_const)
    moreover have "set (take n xs) \<inter> set (drop n xs) = {}"
      using that(1) by (metis append_take_drop_id distinct_append)
    then have "map f (drop n xs) = map (\<lambda>T. 0) (drop n xs)"
      using that(2) by (intro map_cong) auto
    then have "map f (drop n xs) = replicate (length (drop n xs)) 0"
      by (simp add: map_replicate_const)
    ultimately show ?thesis
      by (simp add: min.commute)
  qed
  have i: "(process_input_messages env im st = Inl Assertion_failed) =
     (\<not> ndebug env \<and> fst (fst (rust_get_input_message_count env (world st))) = FFI_SUCCESS \<and>
      MAX_MESSAGES < snd (fst (rust_get_input_message_count env (world st))))"
    by (auto simp: process_input_messages_def call_def split: prod.splits)
  have o: "(process_output_messages env om st = Inl Assertion_failed) =
     (\<not> ndebug env \<and> fst (fst (rust_get_output_message_count env (world st))) = FFI_SUCCESS \<and>
      MAX_MESSAGES < snd (fst (rust_get_output_message_count env (world st))))"
    by (auto simp: process_output_messages_def call_def split: prod.splits)
  have ps: "subscribed (fst (ensure_subscriptions env Ts InputManager_init st)) = take MAX_MESSAGES Ts \<and>
      ensure_subscription_refs env Ts InputManager_init st =
        map Sub_slot [0..<min MAX_MESSAGES (length Ts)] @
        replicate (length Ts - MAX_MESSAGES) Invalid_sub \<and>
      occurrences sub_capacity_error
        (emitted st (snd (ensure_subscriptions env Ts InputManager_init st))) =
        length Ts - MAX_MESSAGES"
    if a: "\<forall>T w. 0 \<le> fst (orb_subscribe env T w)" and d: "distinct Ts"
  proof -
    obtain mgr' st' where r: "ensure_subscriptions env Ts InputManager_init st = (mgr', st')"
      by (metis prod.exhaust)
    from d have d': "distinct (subscribed InputManager_init @ Ts)"
      by (simp add: subscribed_init)
    from ensure_subscriptions_packed [OF a packed_init d' r] r show ?thesis
      by (auto simp: subscribed_init emitted_def)
  qed
  have pp: "advertised (fst (ensure_publications env Ps OutputManager_init st)) =
        take MAX_MESSAGES (map fst Ps) \<and>
      ensure_publication_refs env Ps OutputManager_init st =
        map Pub_slot [0..<min MAX_MESSAGES (length Ps)] @
        replicate (length Ps - MAX_MESSAGES) Invalid_pub \<and>
      occurrences pub_capacity_error
        (emitted st (snd (ensure_publications env Ps OutputManager_init st))) =
        length Ps - MAX_MESSAGES"
    if a: "\<forall>T bytes w. fst (orb_advertise env T bytes w) \<noteq> 0" and d: "distinct (map fst Ps)"
  proof -
    obtain mgr' st' where r: "ensure_publications env Ps OutputManager_init st = (mgr', st')"
      by (metis prod.exhaust)
    from d have d': "distinct (advertised OutputManager_init @ map fst Ps)"
      by (simp add: advertised_init)
    from ensure_publications_packed [OF a packed_pubs_init d' r] r show ?thesis
      by (auto simp: advertised_init emitted_def)
  qed
  have ri: "input_indices (emitted st st') =
        (if fst (fst (rust_get_input_message_count env (world st))) = FFI_SUCCESS
         then [0..<snd (fst (rust_get_input_message_count env (world st)))] else []) \<and>
      subscribed im' = take MAX_MESSAGES (input_topics (emitted st st')) \<and>
      occurrences sub_capacity_error (emitted st st') =
        length (input_topics (emitted st st')) - MAX_MESSAGES \<and>
      map (\<lambda>T. occurrences (check_call T) (emitted st st')) (input_topics (emitted st st')) =
        replicate (min MAX_MESSAGES (length (input_topics (emitted st st')))) 1 @
        replicate (length (input_topics (emitted st st')) - MAX_MESSAGES) 0"
    if a: "\<forall>T w. 0 \<le> fst (orb_subscribe env T w)"
      and r: "process_input_messages env InputManager_init st = Inr (im', st')"
      and d: "distinct (input_topics (emitted st st'))"
  proof -
    obtain error n w where c: "rust_get_input_message_count env (world st) = ((error, n), w)"
      by (metis prod.exhaust)
    note f = process_input_messages_first_bound [OF a r d]
    from f have "\<And>T. occurrences (check_call T) (emitted st st') =
        (if T \<in> set (take MAX_MESSAGES (input_topics (emitted st st'))) then 1 else 0)"
      by simp
    from split_counts [OF d this] f process_input_messages_indices [OF InputManager_init_length r c] c
    show ?thesis
      by simp
  qed
  have ro: "output_indices (emitted su su') =
        (if fst (fst (rust_get_output_message_count env (world su))) = FFI_SUCCESS
         then [0..<snd (fst (rust_get_output_message_count env (world su)))] else []) \<and>
      advertised om' = take MAX_MESSAGES (output_topics env (emitted su su')) \<and>
      occurrences pub_capacity_error (emitted su su') =
        length (output_topics env (emitted su su')) - MAX_MESSAGES \<and>
      map (\<lambda>T. occurrences (publish_call T) (emitted su su')) (output_topics env (emitted su su')) =
        replicate (min MAX_MESSAGES (length (output_topics env (emitted su su')))) 1 @
        replicate (length (output_topics env (emitted su su')) - MAX_MESSAGES) 0"
    if a: "\<forall>T bytes w. fst (orb_advertise env T bytes w) \<noteq> 0"
      and r: "process_output_messages env OutputManager_init su = Inr (om', su')"
      and d: "distinct (output_topics env (emitted su su'))"
  proof -
    obtain error n w where c: "rust_get_output_message_count env (world su) = ((error, n), w)"
      by (metis prod.exhaust)
    note f = process_output_messages_first_bound [OF a r d]
    from f have "\<And>T. occurrences (publish_call T) (emitted su su') =
        (if T \<in> set (take MAX_MESSAGES (output_topics env (emitted su su'))) then 1 else 0)"
      by simp
    from split_counts [OF d this] f process_output_messages_indices [OF OutputManager_init_length r c] c
    show ?thesis
      by simp
  qed
  from i o ps pp ri ro show ?thesis
    by blast
qed

theorem C3_witness:
  "ndebug seventeen_ndebug_env \<and>
   fst (rust_get_input_message_count seventeen_ndebug_env (world sys0)) = (FFI_SUCCESS, 17) \<and>
   fst (rust_get_output_message_count seventeen_ndebug_env (world sys0)) = (FFI_SUCCESS, 17) \<and>
   \<not> isl (process_input_messages seventeen_ndebug_env InputManager_init sys0) \<and>
   \<not> isl (process_output_messages seventeen_ndebug_env OutputManager_init sys0) \<and>
   input_topics (events_of (process_input_messages seventeen_ndebug_env InputManager_init sys0)) =
     [100, 101, 102, 103, 104, 105, 106, 107, 108, 109, 110, 111, 112, 113, 114, 115, 116] \<and>
   input_indices (events_of (process_input_messages seventeen_ndebug_env InputManager_init sys0)) =
     [0, 1, 2, 3, 4, 5, 6, 7, 8, 9, 10, 11, 12, 13, 14, 15, 16] \<and>
   map_option subscribed (pool_of (process_input_messages seventeen_ndebug_env InputManager_init sys0)) =
     Some [100, 101, 102, 103, 104, 105, 106, 107, 108, 109, 110, 111, 112, 113, 114, 115] \<and>
   occurrences sub_capacity_error
     (events_of (process_input_messages seventeen_ndebug_env InputManager_init sys0)) = 1 \<and>
   map (\<lambda>T. occurrences (check_call T)
          (events_of (process_input_messages seventeen_ndebug_env InputManager_init sys0)))
     [100, 101, 102, 103, 104, 105, 106, 107, 108, 109, 110, 111, 112, 113, 114, 115, 116] =
     [1, 1, 1, 1, 1, 1, 1, 1, 1, 1, 1, 1, 1, 1, 1, 1, 0] \<and>
   output_topics seventeen_ndebug_env
     (events_of (process_output_messages seventeen_ndebug_env OutputManager_init sys0)) =
     [200, 201, 202, 203, 204, 205, 206, 207, 208, 209, 210, 211, 212, 213, 214, 215, 216] \<and>
   map_option advertised (pool_of (process_output_messages seventeen_ndebug_env OutputManager_init sys0)) =
     Some [200, 201, 202, 203, 204, 205, 206, 207, 208, 209, 210, 211, 212, 213, 214, 215] \<and>
   occurrences pub_capacity_error
     (events_of (process_output_messages seventeen_ndebug_env OutputManager_init sys0)) = 1 \<and>
   map (\<lambda>T. occurrences (publish_call T)
          (events_of (process_output_messages seventeen_ndebug_env OutputManager_init sys0)))
     [200, 201, 202, 203, 204, 205, 206, 207, 208, 209, 210, 211, 212, 213, 214, 215, 216] =
     [1, 1, 1, 1, 1, 1, 1, 1, 1, 1, 1, 1, 1, 1, 1, 1, 0] \<and>
   ensure_subscription_refs seventeen_ndebug_env
     [100, 101, 102, 103, 104, 105, 106, 107, 108, 109, 110, 111, 112, 113, 114, 115, 116]
     InputManager_init sys0 =
     [Sub_slot 0, Sub_slot 1, Sub_slot 2, Sub_slot 3, Sub_slot 4, Sub_slot 5, Sub_slot 6, Sub_slot 7,
      Sub_slot 8, Sub_slot 9, Sub_slot 10, Sub_slot 11, Sub_slot 12, Sub_slot 13, Sub_slot 14,
      Sub_slot 15, Invalid_sub] \<and>
   ensure_publication_refs seventeen_ndebug_env
     (map (\<lambda>T. (T, [])) [200, 201, 202, 203, 204, 205, 206, 207, 208, 209, 210, 211, 212, 213, 214, 215, 216])
     OutputManager_init sys0 =
     [Pub_slot 0, Pub_slot 1, Pub_slot 2, Pub_slot 3, Pub_slot 4, Pub_slot 5, Pub_slot 6, Pub_slot 7,
      Pub_slot 8, Pub_slot 9, Pub_slot 10, Pub_slot 11, Pub_slot 12, Pub_slot 13, Pub_slot 14,
      Pub_slot 15, Invalid_pub]"
proof -
  define Ts :: "nat list" where
    "Ts = [100, 101, 102, 103, 104, 105, 106, 107, 108, 109, 110, 111, 112, 113, 114, 115, 116]"
  define Us :: "nat list" where
    "Us = [200, 201, 202, 203, 204, 205, 206, 207, 208, 209, 210, 211, 212, 213, 214, 215, 216]"
  have u16: "[0..<16] = [0, 1, 2, 3, 4, 5, 6, 7, 8, 9, 10, 11, 12, 13, 14, 15::nat]"
    and u17: "[0..<17] = [0, 1, 2, 3, 4, 5, 6, 7, 8, 9, 10, 11, 12, 13, 14, 15, 16::nat]"
    by (simp_all add: upt_rec)
  have n: "ndebug seventeen_ndebug_env"
    and c: "rust_get_input_message_count seventeen_ndebug_env (world sys0) = ((FFI_SUCCESS, 17), 0)"
      "rust_get_output_message_count seventeen_ndebug_env (world sys0) = ((FFI_SUCCESS, 17), 0)"
    and a: "\<forall>T w. 0 \<le> fst (orb_subscribe seventeen_ndebug_env T w)"
      "\<forall>T bytes w. fst (orb_advertise seventeen_ndebug_env T bytes w) \<noteq> 0"
    by (simp_all add: seventeen_ndebug_env_def seventeen_env_def mock_env_def sys0_def)
  from seventeen_ndebug_input_run obtain im st where
    i: "process_input_messages seventeen_ndebug_env InputManager_init sys0 = Inr (im, st)"
      "events_of (process_input_messages seventeen_ndebug_env InputManager_init sys0) = trace st"
      "pool_of (process_input_messages seventeen_ndebug_env InputManager_init sys0) = Some im"
    by (blast elim: returned)
  from seventeen_ndebug_output_run obtain om su where
    o: "process_output_messages seventeen_ndebug_env OutputManager_init sys0 = Inr (om, su)"
      "events_of (process_output_messages seventeen_ndebug_env OutputManager_init sys0) = trace su"
      "pool_of (process_output_messages seventeen_ndebug_env OutputManager_init sys0) = Some om"
    by (blast elim: returned)
  have ti: "input_topics (trace st) = Ts" and tu: "output_topics seventeen_ndebug_env (trace su) = Us"
    using seventeen_ndebug_input_run seventeen_ndebug_output_run unfolding i(2) o(2) Ts_def Us_def by simp_all
  have d: "distinct Ts" "distinct Us" "distinct (map fst (map (\<lambda>T. (T, [] :: byte list)) Us))"
    by (simp_all add: Ts_def Us_def)
  note r = C3_only_the_excess_is_dropped [where env = seventeen_ndebug_env and im = InputManager_init
      and st = sys0 and om = OutputManager_init and Ts = Ts
      and Ps = "map (\<lambda>T. (T, [])) Us" and im' = im and st' = st and su = sys0 and om' = om
      and su' = su]
  from r a d have pool: "ensure_subscription_refs seventeen_ndebug_env Ts InputManager_init sys0 =
        map Sub_slot [0..<min MAX_MESSAGES (length Ts)] @
        replicate (length Ts - MAX_MESSAGES) Invalid_sub"
    "ensure_publication_refs seventeen_ndebug_env (map (\<lambda>T. (T, [])) Us) OutputManager_init sys0 =
        map Pub_slot [0..<min MAX_MESSAGES (length (map (\<lambda>T. (T, [] :: byte list)) Us))] @
        replicate (length (map (\<lambda>T. (T, [] :: byte list)) Us) - MAX_MESSAGES) Invalid_pub"
    by blast+
  from r a(1) i(1) d(1) ti have rin: "input_indices (trace st) = [0..<17]"
    "subscribed im = take MAX_MESSAGES Ts"
    "occurrences sub_capacity_error (trace st) = length Ts - MAX_MESSAGES"
    "map (\<lambda>T. occurrences (check_call T) (trace st)) Ts =
        replicate (min MAX_MESSAGES (length Ts)) 1 @ replicate (length Ts - MAX_MESSAGES) 0"
    unfolding emitted_sys0 using c(1) by simp_all
  from r a(2) o(1) d(2) tu have rout: "advertised om = take MAX_MESSAGES Us"
    "occurrences pub_capacity_error (trace su) = length Us - MAX_MESSAGES"
    "map (\<lambda>T. occurrences (publish_call T) (trace su)) Us =
        replicate (min MAX_MESSAGES (length Us)) 1 @ replicate (length Us - MAX_MESSAGES) 0"
    unfolding emitted_sys0 by simp_all
  have e: "take MAX_MESSAGES Ts = [100, 101, 102, 103, 104, 105, 106, 107, 108, 109, 110, 111, 112, 113, 114, 115]"
    "take MAX_MESSAGES Us = [200, 201, 202, 203, 204, 205, 206, 207, 208, 209, 210, 211, 212, 213, 214, 215]"
    "length Ts - MAX_MESSAGES = 1" "length Us - MAX_MESSAGES = 1"
    "min MAX_MESSAGES (length Ts) = 16" "min MAX_MESSAGES (length Us) = 16"
    by (simp_all add: Ts_def Us_def MAX_MESSAGES_def)
  have rep: "replicate 16 (1::nat) @ replicate 1 0 = [1, 1, 1, 1, 1, 1, 1, 1, 1, 1, 1, 1, 1, 1, 1, 1, 0]"
    by (simp add: replicate_16)
  from pool have pool': "ensure_subscription_refs seventeen_ndebug_env Ts InputManager_init sys0 =
     [Sub_slot 0, Sub_slot 1, Sub_slot 2, Sub_slot 3, Sub_slot 4, Sub_slot 5, Sub_slot 6, Sub_slot 7,
      Sub_slot 8, Sub_slot 9, Sub_slot 10, Sub_slot 11, Sub_slot 12, Sub_slot 13, Sub_slot 14,
      Sub_slot 15, Invalid_sub]"
    "ensure_publication_refs seventeen_ndebug_env (map (\<lambda>T. (T, [])) Us) OutputManager_init sys0 =
     [Pub_slot 0, Pub_slot 1, Pub_slot 2, Pub_slot 3, Pub_slot 4, Pub_slot 5, Pub_slot 6, Pub_slot 7,
      Pub_slot 8, Pub_slot 9, Pub_slot 10, Pub_slot 11, Pub_slot 12, Pub_slot 13, Pub_slot 14,
      Pub_slot 15, Invalid_pub]"
    unfolding length_map e u16 by simp_all
  show ?thesis
    unfolding Ts_def [symmetric] Us_def [symmetric]
    using n c i o ti tu rin rout pool' e rep u17 by simp
qed
subsection \<open>One binding for each topic\<close>

text \<open>
  C4. The claim: after any sequence of \<open>ensure\<close> calls over \<open>M \<le> 16\<close> distinct topics
  the pool holds exactly \<open>M\<close> bindings. A subscription that the bus refuses leaves an
  invalid binding in the first free slot, and the next new topic takes the same slot:
  after \<open>ensure(7)\<close> and \<open>ensure(9)\<close> on a bus that refuses both, the pool holds the
  invalid binding of topic 9 and nothing else, for \<open>M = 2\<close>.
\<close>

theorem C4_counterexample:
  "length (remdups [7, 9 :: nat]) = 2 \<and>
   subscriptions (fst (ensure_subscriptions subscribe_fails_env [7, 9] InputManager_init sys0)) =
     \<lparr>sub_id = 9, sub_handle = - 1\<rparr> # replicate 15 OrbSubscription_default \<and>
   subscribed (fst (ensure_subscriptions subscribe_fails_env [7, 9] InputManager_init sys0)) = []"
  by (simp add: run_defs subscribe_fails_env_def mock_env_def subscribed_def replicate_16 replicate_15)

text \<open>
  C4, amended. With a bus that accepts every subscription and every advertisement, and
  starting from the empty pool, after any sequence of \<open>ensure\<close> calls over at most 16
  distinct topics the valid bindings of the pool are bound to exactly these topics, one
  binding each. (That no two valid bindings share a topic holds for every bus and every
  sequence: \<open>ensure_subscriptions_pool\<close>, \<open>ensure_publications_pool\<close>.)
\<close>

theorem C4_pool_uniqueness:
  assumes "\<forall>T w. fst (orb_subscribe env T w) \<ge> 0"
    and "\<forall>T bytes w. fst (orb_advertise env T bytes w) \<noteq> 0"
    and "length (remdups Ts) \<le> MAX_MESSAGES"
    and "length (remdups (map fst Ps)) \<le> MAX_MESSAGES"
  shows "distinct (subscribed (fst (ensure_subscriptions env Ts InputManager_init st))) \<and>
         set (subscribed (fst (ensure_subscriptions env Ts InputManager_init st))) = set Ts \<and>
         length (subscribed (fst (ensure_subscriptions env Ts InputManager_init st))) =
           length (remdups Ts) \<and>
         distinct (advertised (fst (ensure_publications env Ps OutputManager_init su))) \<and>
         set (advertised (fst (ensure_publications env Ps OutputManager_init su))) = set (map fst Ps) \<and>
         length (advertised (fst (ensure_publications env Ps OutputManager_init su))) =
           length (remdups (map fst Ps))"
proof -
  obtain im st' where i: "ensure_subscriptions env Ts InputManager_init st = (im, st')"
    by (metis prod.exhaust)
  obtain om su' where o: "ensure_publications env Ps OutputManager_init su = (om, su')"
    by (metis prod.exhaust)
  from ensure_subscriptions_pool [OF InputManager_init_length i]
  have di: "distinct (subscribed im)" and si: "set (subscribed im) \<subseteq> set Ts"
    by (simp_all add: subscribed_init)
  from ensure_publications_pool [OF OutputManager_init_length o]
  have do: "distinct (advertised om)" and so: "set (advertised om) \<subseteq> set (map fst Ps)"
    by (simp_all add: advertised_init)
  from pool_exactly [OF di si ensure_subscriptions_bound [OF InputManager_init_length assms(1) i] assms(3)]
    pool_exactly [OF do so ensure_publications_bound [OF OutputManager_init_length assms(2) o] assms(4)]
    di do i o
  show ?thesis
    by simp
qed

theorem C4_witness:
  "(\<forall>T w. fst (orb_subscribe mock_env T w) \<ge> 0) \<and>
   (\<forall>T bytes w. fst (orb_advertise mock_env T bytes w) \<noteq> 0) \<and>
   length (remdups [7, 9, 7 :: nat]) \<le> MAX_MESSAGES \<and>
   length (remdups (map fst [(8 :: nat, [] :: byte list), (8, [1]), (5, [])])) \<le> MAX_MESSAGES \<and>
   subscribed (fst (ensure_subscriptions mock_env [7, 9, 7] InputManager_init sys0)) = [7, 9] \<and>
   distinct (subscribed (fst (ensure_subscriptions mock_env [7, 9, 7] InputManager_init sys0))) \<and>
   length (subscribed (fst (ensure_subscriptions mock_env [7, 9, 7] InputManager_init sys0))) = 2 \<and>
   advertised (fst (ensure_publications mock_env [(8, []), (8, [1]), (5, [])] OutputManager_init sys0)) =
     [8, 5] \<and>
   distinct (advertised (fst (ensure_publications mock_env [(8, []), (8, [1]), (5, [])] OutputManager_init sys0))) \<and>
   length (advertised (fst (ensure_publications mock_env [(8, []), (8, [1]), (5, [])] OutputManager_init sys0))) = 2"
proof -
  have a: "\<forall>T w. fst (orb_subscribe mock_env T w) \<ge> 0"
    by (simp add: mock_env_def)
  have b: "\<forall>T bytes w. fst (orb_advertise mock_env T bytes w) \<noteq> 0"
    by (simp add: mock_env_def)
  have c: "length (remdups [7, 9, 7 :: nat]) \<le> MAX_MESSAGES"
    by (simp add: MAX_MESSAGES_def)
  have d: "length (remdups (map fst [(8 :: nat, [] :: byte list), (8, [1]), (5, [])])) \<le> MAX_MESSAGES"
    by (simp add: MAX_MESSAGES_def)
  have e: "subscribed (fst (ensure_subscriptions mock_env [7, 9, 7] InputManager_init sys0)) = [7, 9]"
    by (simp add: run_defs mock_env_def subscribed_def replicate_16)
  have f: "advertised (fst (ensure_publications mock_env [(8, []), (8, [1]), (5, [])] OutputManager_init sys0)) = [8, 5]"
    by (simp add: run_defs mock_env_def advertised_def replicate_16)
  from C4_pool_uniqueness [OF a b c d, of sys0 sys0] a b c d e f show ?thesis
    by simp
qed

subsection \<open>A full pool\<close>

lemma full_subscriptions:
  assumes "length (subscriptions im) = MAX_MESSAGES" "list_all sub_is_valid (subscriptions im)"
    "T \<notin> set (subscribed im)"
  shows "ensure_subscription env T im st =
           (Invalid_sub, im, st\<lparr>trace := trace st @ [PX4_ERR (Too_many_subscriptions MAX_MESSAGES)]\<rparr>)"
  using assms
  by (simp add: ensure_subscription_full find_subscription_None_iff find_empty_sub_None_iff)

lemma full_publications:
  assumes "length (publications om) = MAX_MESSAGES" "list_all pub_is_valid (publications om)"
    "T \<notin> set (advertised om)"
  shows "ensure_publication env T bytes om st =
           (Invalid_pub, om, st\<lparr>trace := trace st @ [PX4_ERR (Too_many_publications MAX_MESSAGES)]\<rparr>)"
  using assms
  by (simp add: ensure_publication_full find_publication_None_iff find_empty_pub_None_iff)

text \<open>
  C5. When the 16 slots of a pool hold valid bindings and a topic \<open>T\<close> has none,
  \<open>ensure_subscription\<close> logs the capacity error and returns the static invalid binding; the
  pool is returned as it was and the bus is not called. The pass of the input loop for
  \<open>T\<close> does nothing more: no update check, no copy, no write. It is the same for
  \<open>ensure_publication\<close>: the pass of the output loop for \<open>T\<close> reads the update from the
  engine, logs the capacity error, and neither advertises nor publishes.
\<close>

theorem C5_pool_exhaustion:
  assumes "length (subscriptions im) = MAX_MESSAGES"
    and "list_all sub_is_valid (subscriptions im)"
    and "T \<notin> set (subscribed im)"
    and "length (publications om) = MAX_MESSAGES"
    and "list_all pub_is_valid (publications om)"
    and "T \<notin> set (advertised om)"
    and "rust_get_input_message_id env i (world st) = ((FFI_SUCCESS, T), w)"
    and "rust_get_output_message_id env j (world su) = ((FFI_SUCCESS, T), w1)"
    and "rust_output_message_has_update env T w1 = ((FFI_SUCCESS, True), w2)"
    and "o_size env T \<le> MAX_MESSAGE_SIZE"
    and "rust_read_output_message env T MAX_MESSAGE_SIZE w2 = ((FFI_SUCCESS, o_size env T, bytes), w3)"
  shows "ensure_subscription env T im st =
           (Invalid_sub, im, st\<lparr>trace := trace st @ [PX4_ERR (Too_many_subscriptions MAX_MESSAGES)]\<rparr>) \<and>
         \<not> sub_is_valid (sub_at im Invalid_sub) \<and>
         input_iteration env i im st =
           (im, st\<lparr>world := w,
                   trace := trace st @ [Get_input_id i FFI_SUCCESS T,
                                        PX4_ERR (Too_many_subscriptions MAX_MESSAGES)]\<rparr>) \<and>
         ensure_publication env T initial_data om su =
           (Invalid_pub, om, su\<lparr>trace := trace su @ [PX4_ERR (Too_many_publications MAX_MESSAGES)]\<rparr>) \<and>
         \<not> pub_is_valid (pub_at om Invalid_pub) \<and>
         output_iteration env j om su =
           (om\<lparr>out_buffer := store bytes (out_buffer om)\<rparr>,
            su\<lparr>world := w3,
               trace := trace su @ [Get_output_id j FFI_SUCCESS T, Has_update T FFI_SUCCESS True,
                                    Read_output T FFI_SUCCESS (o_size env T),
                                    PX4_ERR (Too_many_publications MAX_MESSAGES)]\<rparr>)"
proof -
  have s: "ensure_subscription env T im x =
      (Invalid_sub, im, x\<lparr>trace := trace x @ [PX4_ERR (Too_many_subscriptions MAX_MESSAGES)]\<rparr>)" for x
    using assms(1,2,3) by (rule full_subscriptions)
  have p: "ensure_publication env T b (om\<lparr>out_buffer := c\<rparr>) x =
      (Invalid_pub, om\<lparr>out_buffer := c\<rparr>,
       x\<lparr>trace := trace x @ [PX4_ERR (Too_many_publications MAX_MESSAGES)]\<rparr>)" for b c x
    using assms(4,5,6) by (intro full_publications) (simp_all add: advertised_def)
  have vs: "\<not> sub_is_valid (sub_at im Invalid_sub)"
    by (simp add: OrbSubscription_default_def sub_is_valid_def)
  have vp: "\<not> pub_is_valid (pub_at om' Invalid_pub)" for om'
    by (simp add: OrbPublication_default_def pub_is_valid_def)
  have "input_iteration env i im st =
           (im, st\<lparr>world := w,
                   trace := trace st @ [Get_input_id i FFI_SUCCESS T,
                                        PX4_ERR (Too_many_subscriptions MAX_MESSAGES)]\<rparr>)"
    using assms(7) vs
    by (simp add: input_iteration_def call_def emit_def s check_updated_def)
  moreover have "output_iteration env j om su =
           (om\<lparr>out_buffer := store bytes (out_buffer om)\<rparr>,
            su\<lparr>world := w3,
               trace := trace su @ [Get_output_id j FFI_SUCCESS T, Has_update T FFI_SUCCESS True,
                                    Read_output T FFI_SUCCESS (o_size env T),
                                    PX4_ERR (Too_many_publications MAX_MESSAGES)]\<rparr>)"
    using assms(8,9,10,11) vp
    by (simp add: output_iteration_def call_def emit_def p Let_def)
  ultimately show ?thesis
    using s [of st] vs vp [of om] full_publications [OF assms(4,5,6), of env initial_data su] by simp
qed

lemma full_input_manager_facts:
  "length (subscriptions full_input_manager) = MAX_MESSAGES"
  "list_all sub_is_valid (subscriptions full_input_manager)"
  "7 \<notin> set (subscribed full_input_manager)"
  by (auto simp: full_input_manager_def sub_is_valid_def list_all_iff subscribed_def)

lemma full_output_manager_facts:
  "length (publications full_output_manager) = MAX_MESSAGES"
  "list_all pub_is_valid (publications full_output_manager)"
  "7 \<notin> set (advertised full_output_manager)"
  by (auto simp: full_output_manager_def pub_is_valid_def list_all_iff advertised_def)

theorem C5_witness:
  "length (subscriptions full_input_manager) = MAX_MESSAGES \<and>
   list_all sub_is_valid (subscriptions full_input_manager) \<and>
   7 \<notin> set (subscribed full_input_manager) \<and>
   length (publications full_output_manager) = MAX_MESSAGES \<and>
   list_all pub_is_valid (publications full_output_manager) \<and>
   7 \<notin> set (advertised full_output_manager) \<and>
   rust_get_input_message_id both_sides_env 0 (world sys0) = ((FFI_SUCCESS, 7), 0) \<and>
   rust_get_output_message_id both_sides_env 0 (world sys0) = ((FFI_SUCCESS, 7), 0) \<and>
   rust_output_message_has_update both_sides_env 7 0 = ((FFI_SUCCESS, True), 0) \<and>
   o_size both_sides_env 7 \<le> MAX_MESSAGE_SIZE \<and>
   rust_read_output_message both_sides_env 7 MAX_MESSAGE_SIZE 0 =
     ((FFI_SUCCESS, o_size both_sides_env 7, [5, 6, 7, 8]), 0) \<and>
   ensure_subscription both_sides_env 7 full_input_manager sys0 =
     (Invalid_sub, full_input_manager, \<lparr>world = 0, trace = [PX4_ERR (Too_many_subscriptions 16)]\<rparr>) \<and>
   input_iteration both_sides_env 0 full_input_manager sys0 =
     (full_input_manager,
      \<lparr>world = 0, trace = [Get_input_id 0 FFI_SUCCESS 7, PX4_ERR (Too_many_subscriptions 16)]\<rparr>) \<and>
   trace (snd (output_iteration both_sides_env 0 full_output_manager sys0)) =
     [Get_output_id 0 FFI_SUCCESS 7, Has_update 7 FFI_SUCCESS True, Read_output 7 FFI_SUCCESS 4,
      PX4_ERR (Too_many_publications 16)] \<and>
   publications (fst (output_iteration both_sides_env 0 full_output_manager sys0)) =
     publications full_output_manager"
proof -
  have a: "rust_get_input_message_id both_sides_env 0 (world sys0) = ((FFI_SUCCESS, 7), 0)"
    "rust_get_output_message_id both_sides_env 0 (world sys0) = ((FFI_SUCCESS, 7), 0)"
    "rust_output_message_has_update both_sides_env 7 0 = ((FFI_SUCCESS, True), 0)"
    "o_size both_sides_env 7 \<le> MAX_MESSAGE_SIZE"
    "rust_read_output_message both_sides_env 7 MAX_MESSAGE_SIZE 0 =
       ((FFI_SUCCESS, o_size both_sides_env 7, [5, 6, 7, 8]), 0)"
    by (simp_all add: both_sides_env_def mock_env_def sys0_def MAX_MESSAGE_SIZE_def)
  have s: "o_size both_sides_env 7 = 4"
    by (simp add: both_sides_env_def mock_env_def)
  from C5_pool_exhaustion [OF full_input_manager_facts full_output_manager_facts a, of "[]"]
  have "ensure_subscription both_sides_env 7 full_input_manager sys0 =
     (Invalid_sub, full_input_manager, \<lparr>world = 0, trace = [PX4_ERR (Too_many_subscriptions 16)]\<rparr>)"
    "input_iteration both_sides_env 0 full_input_manager sys0 =
     (full_input_manager,
      \<lparr>world = 0, trace = [Get_input_id 0 FFI_SUCCESS 7, PX4_ERR (Too_many_subscriptions 16)]\<rparr>)"
    "trace (snd (output_iteration both_sides_env 0 full_output_manager sys0)) =
     [Get_output_id 0 FFI_SUCCESS 7, Has_update 7 FFI_SUCCESS True, Read_output 7 FFI_SUCCESS 4,
      PX4_ERR (Too_many_publications 16)]"
    "publications (fst (output_iteration both_sides_env 0 full_output_manager sys0)) =
     publications full_output_manager"
    by (simp_all add: sys0_def MAX_MESSAGES_def s)
  with full_input_manager_facts full_output_manager_facts a show ?thesis
    by simp
qed

subsection \<open>Topics larger than the buffer\<close>

text \<open>
  C6. For a topic \<open>T\<close> whose declared size exceeds the 1024 bytes of the buffer, in every
  cycle of a relay that returns. The relays look at the size of a topic once they have
  found an update of it. Input relay: \<open>T\<close> is polled like every topic, once for every
  index that lists it unless it has no valid subscription; every poll that reports a
  fresh update logs the size error, once; there is no \<open>orb_copy\<close> and no
  \<open>rust_write_input_message\<close> for \<open>T\<close>. Output relay: the engine is asked for an update of
  \<open>T\<close> once for every index that lists it; every pending update it reports logs the size
  error, once; there is no \<open>rust_read_output_message\<close>, no \<open>orb_advertise\<close> and no
  \<open>orb_publish\<close> for \<open>T\<close>.
\<close>

theorem C6_oversize_never_transferred:
  assumes "o_size env T > MAX_MESSAGE_SIZE"
    and "length (subscriptions im) = MAX_MESSAGES"
    and "length (publications om) = MAX_MESSAGES"
    and "process_input_messages env im st = Inr (im', st')"
    and "process_output_messages env om su = Inr (om', su')"
  shows "occurrences (copy_call T) (emitted st st') = 0 \<and>
         occurrences (write_call T) (emitted st st') = 0 \<and>
         occurrences (oversize_error T) (emitted st st') = occurrences (fresh_update T) (emitted st st') \<and>
         occurrences (read_call T) (emitted su su') = 0 \<and>
         occurrences (advertise_call T) (emitted su su') = 0 \<and>
         occurrences (publish_call T) (emitted su su') = 0 \<and>
         occurrences (oversize_error T) (emitted su su') = occurrences (pending_update T) (emitted su su') \<and>
         occurrences (check_call T) (emitted st st') + occurrences (subscribe_refused T) (emitted st st') +
           input_capacity_drops T (emitted st st') = occurrences (input_listed T) (emitted st st') \<and>
         occurrences (update_query T) (emitted su su') = occurrences (output_listed T) (emitted su su')"
proof -
  from process_input_messages_relation [OF assms(2,4), of T] assms(1)
  have i: "occurrences (copy_call T) (emitted st st') = 0"
    "occurrences (write_call T) (emitted st st') = occurrences (copy_ok T) (emitted st st')"
    "occurrences (oversize_error T) (emitted st st') = occurrences (fresh_update T) (emitted st st')"
    by (simp_all add: input_relation_def)
  from process_output_messages_relation [OF assms(3,5), of T] assms(1)
  have o: "occurrences (read_call T) (emitted su su') = 0"
    "occurrences (publish_call T) (emitted su su') \<le> occurrences (read_match (o_size env T) T) (emitted su su')"
    "occurrences (advertise_call T) (emitted su su') \<le> occurrences (read_match (o_size env T) T) (emitted su su')"
    "occurrences (oversize_error T) (emitted su su') = occurrences (pending_update T) (emitted su su')"
    by (simp_all add: output_relation_def)
  from i(1,2) copy_ok_le_copy_call [of T "emitted st st'"]
  have "occurrences (write_call T) (emitted st st') = 0"
    by simp
  moreover from o(1,2,3) read_match_le_read_call [of "o_size env T" T "emitted su su'"]
  have "occurrences (publish_call T) (emitted su su') = 0"
    "occurrences (advertise_call T) (emitted su su') = 0"
    by simp_all
  ultimately show ?thesis
    using i o process_input_messages_polls [OF assms(2,4), of T]
      process_output_messages_polls [OF assms(3,5), of T]
    by simp
qed

theorem C6_witness:
  "o_size oversize_env 7 > MAX_MESSAGE_SIZE \<and> o_size oversize_env 8 > MAX_MESSAGE_SIZE \<and>
   length (subscriptions InputManager_init) = MAX_MESSAGES \<and>
   length (publications OutputManager_init) = MAX_MESSAGES \<and>
   \<not> isl (process_input_messages oversize_env InputManager_init sys0) \<and>
   \<not> isl (process_output_messages oversize_env OutputManager_init sys0) \<and>
   occurrences (input_listed 7) (events_of (process_input_messages oversize_env InputManager_init sys0)) = 1 \<and>
   occurrences (check_call 7) (events_of (process_input_messages oversize_env InputManager_init sys0)) = 1 \<and>
   occurrences (fresh_update 7) (events_of (process_input_messages oversize_env InputManager_init sys0)) = 1 \<and>
   occurrences (oversize_error 7) (events_of (process_input_messages oversize_env InputManager_init sys0)) = 1 \<and>
   occurrences (copy_call 7) (events_of (process_input_messages oversize_env InputManager_init sys0)) = 0 \<and>
   occurrences (write_call 7) (events_of (process_input_messages oversize_env InputManager_init sys0)) = 0 \<and>
   occurrences (output_listed 8) (events_of (process_output_messages oversize_env OutputManager_init sys0)) = 1 \<and>
   occurrences (update_query 8) (events_of (process_output_messages oversize_env OutputManager_init sys0)) = 1 \<and>
   occurrences (pending_update 8) (events_of (process_output_messages oversize_env OutputManager_init sys0)) = 1 \<and>
   occurrences (oversize_error 8) (events_of (process_output_messages oversize_env OutputManager_init sys0)) = 1 \<and>
   occurrences (read_call 8) (events_of (process_output_messages oversize_env OutputManager_init sys0)) = 0 \<and>
   occurrences (advertise_call 8) (events_of (process_output_messages oversize_env OutputManager_init sys0)) = 0 \<and>
   occurrences (publish_call 8) (events_of (process_output_messages oversize_env OutputManager_init sys0)) = 0"
proof -
  have s7: "o_size oversize_env 7 > MAX_MESSAGE_SIZE" and s8: "o_size oversize_env 8 > MAX_MESSAGE_SIZE"
    by (simp_all add: oversize_env_def mock_env_def MAX_MESSAGE_SIZE_def)
  note li = InputManager_init_length and lo = OutputManager_init_length
  from oversize_input_run obtain im st where
    i: "process_input_messages oversize_env InputManager_init sys0 = Inr (im, st)"
      "events_of (process_input_messages oversize_env InputManager_init sys0) = trace st"
    by (rule Inr_run)
  from oversize_output_run obtain om su where
    o: "process_output_messages oversize_env OutputManager_init sys0 = Inr (om, su)"
      "events_of (process_output_messages oversize_env OutputManager_init sys0) = trace su"
    by (rule Inr_run)
  have ti: "trace st = [Get_input_id 0 FFI_SUCCESS 7, PX4_INFO (Subscribing 7), Orb_subscribe 7 7,
      Orb_check 7 7 0 True, PX4_ERR (Size_exceeds_max 2000 1024 7)]"
    using oversize_input_run i(2) by simp
  have tu: "trace su = [Get_output_id 0 FFI_SUCCESS 8, Has_update 8 FFI_SUCCESS True,
      PX4_ERR (Size_exceeds_max 2000 1024 8)]"
    using oversize_output_run o(2) by simp
  have f: "occurrences (fresh_update 7) (trace st) = 1" "occurrences (pending_update 8) (trace su) = 1"
    "occurrences (input_listed 7) (trace st) = 1" "occurrences (output_listed 8) (trace su) = 1"
    "occurrences (subscribe_refused 7) (trace st) = 0" "input_capacity_drops 7 (trace st) = 0"
    by (simp_all add: ti tu input_capacity_drops_def input_passes_def input_dropped_def)
  from C6_oversize_never_transferred [OF s7 li lo i(1) o(1)]
    C6_oversize_never_transferred [OF s8 li lo i(1) o(1)] f
  have "occurrences (oversize_error 7) (trace st) = 1 \<and> occurrences (copy_call 7) (trace st) = 0 \<and>
        occurrences (write_call 7) (trace st) = 0 \<and> occurrences (oversize_error 8) (trace su) = 1 \<and>
        occurrences (read_call 8) (trace su) = 0 \<and> occurrences (publish_call 8) (trace su) = 0 \<and>
        occurrences (advertise_call 8) (trace su) = 0 \<and> occurrences (check_call 7) (trace st) = 1 \<and>
        occurrences (update_query 8) (trace su) = 1"
    unfolding emitted_sys0 by simp
  with s7 s8 li lo i o f show ?thesis
    by simp
qed
subsection \<open>A read of the wrong length\<close>

text \<open>
  C7. The claim: when \<open>rust_read_output_message\<close> returns a byte count other than the
  declared size, a size-mismatch error is logged and nothing is published. The code looks
  at the status first: when the read fails, it logs the read failure whatever the count is.
  Here the topic has 8 bytes and the read returns \<open>FFI_NULL_ARGUMENT\<close> with 6 bytes: the
  log holds ``Failed to read output message'' and no size mismatch.
\<close>

theorem C7_counterexample:
  "o_size failed_read_env 8 = 8 \<and>
   fst (rust_read_output_message failed_read_env 8 MAX_MESSAGE_SIZE 0) = (FFI_NULL_ARGUMENT, 6, []) \<and>
   events_of (process_output_messages failed_read_env OutputManager_init sys0) =
     [Get_output_id 0 FFI_SUCCESS 8, Has_update 8 FFI_SUCCESS True, Read_output 8 FFI_NULL_ARGUMENT 6,
      PX4_ERR (Failed_read_output 8 ''Null argument passed to function'')] \<and>
   occurrences (mismatch_error 8)
     (events_of (process_output_messages failed_read_env OutputManager_init sys0)) = 0"
  by (simp add: run_defs failed_read_env_def mock_env_def)

text \<open>
  C7, amended. In every cycle of the output relay and for every topic \<open>T\<close>: each read of
  \<open>T\<close> that returns \<open>FFI_SUCCESS\<close> with a byte count other than the declared size logs
  one size-mismatch error, each read that returns another status logs one read failure,
  and \<open>T\<close> is advertised and published at most once for each read that returns
  \<open>FFI_SUCCESS\<close> with the declared size: a read of the wrong length, or a failed one, is
  followed by no advertisement and no publish.
\<close>

theorem C7_size_mismatch_skips_publish:
  assumes "length (publications om) = MAX_MESSAGES"
    and "process_output_messages env om su = Inr (om', su')"
  shows "occurrences (mismatch_error T) (emitted su su') =
           occurrences (read_mismatch (o_size env T) T) (emitted su su') \<and>
         occurrences (read_error T) (emitted su su') = occurrences (read_failed T) (emitted su su') \<and>
         occurrences (advertise_call T) (emitted su su') \<le>
           occurrences (read_match (o_size env T) T) (emitted su su') \<and>
         occurrences (publish_call T) (emitted su su') \<le>
           occurrences (read_match (o_size env T) T) (emitted su su')"
  using process_output_messages_relation [OF assms, of T]
  by (simp add: output_relation_def)

theorem C7_witness:
  "length (publications OutputManager_init) = MAX_MESSAGES \<and>
   \<not> isl (process_output_messages short_read_env OutputManager_init sys0) \<and>
   o_size short_read_env 8 = 8 \<and>
   occurrences (read_mismatch 8 8)
     (events_of (process_output_messages short_read_env OutputManager_init sys0)) = 1 \<and>
   occurrences (read_match 8 8)
     (events_of (process_output_messages short_read_env OutputManager_init sys0)) = 0 \<and>
   occurrences (mismatch_error 8)
     (events_of (process_output_messages short_read_env OutputManager_init sys0)) = 1 \<and>
   occurrences (advertise_call 8)
     (events_of (process_output_messages short_read_env OutputManager_init sys0)) = 0 \<and>
   occurrences (publish_call 8)
     (events_of (process_output_messages short_read_env OutputManager_init sys0)) = 0"
proof -
  note lo = OutputManager_init_length
  have s: "o_size short_read_env 8 = 8"
    by (simp add: short_read_env_def mock_env_def)
  from short_read_run obtain om su where
    o: "process_output_messages short_read_env OutputManager_init sys0 = Inr (om, su)"
      "events_of (process_output_messages short_read_env OutputManager_init sys0) = trace su"
    by (rule Inr_run)
  have r: "occurrences (read_mismatch 8 8) (trace su) = 1" "occurrences (read_match 8 8) (trace su) = 0"
    using short_read_run unfolding o(2) by simp_all
  from C7_size_mismatch_skips_publish [OF lo o(1), of 8] r
  have "occurrences (mismatch_error 8) (trace su) = 1 \<and> occurrences (advertise_call 8) (trace su) = 0 \<and>
        occurrences (publish_call 8) (trace su) = 0"
    unfolding emitted_sys0 s by simp
  with lo o s r show ?thesis
    by simp
qed

subsection \<open>A subscription that the bus refuses\<close>

text \<open>
  C8. When \<open>orb_subscribe\<close> returns a negative handle, the constructor logs the failure
  and stores the handle \<open>-1\<close>; \<open>ensure_subscription\<close> puts this binding into the free slot
  and returns it. The binding is not valid, and \<open>check_updated\<close> and \<open>copy_data\<close> on it
  return \<open>false\<close> and leave the bus, the buffer and the trace as they are.
\<close>

theorem C8_failed_subscription_is_inert:
  assumes "length (subscriptions im) = MAX_MESSAGES"
    and "T \<notin> set (subscribed im)"
    and "find_empty_sub (subscriptions im) 0 = Some k"
    and "orb_subscribe env T (world st) = (h, w)"
    and "h < 0"
  shows "OrbSubscription_new env T st =
           (\<lparr>sub_id = T, sub_handle = - 1\<rparr>,
            st\<lparr>world := w, trace := trace st @ [Orb_subscribe T h, PX4_ERR Failed_to_subscribe]\<rparr>) \<and>
         ensure_subscription env T im st =
           (Sub_slot k,
            im\<lparr>subscriptions := (subscriptions im)[k := \<lparr>sub_id = T, sub_handle = - 1\<rparr>]\<rparr>,
            st\<lparr>world := w,
               trace := trace st @ [PX4_INFO (Subscribing T), Orb_subscribe T h,
                                    PX4_ERR Failed_to_subscribe]\<rparr>) \<and>
         sub_at (fst (snd (ensure_subscription env T im st))) (fst (ensure_subscription env T im st)) =
           \<lparr>sub_id = T, sub_handle = - 1\<rparr> \<and>
         \<not> sub_is_valid \<lparr>sub_id = T, sub_handle = - 1\<rparr> \<and>
         check_updated env \<lparr>sub_id = T, sub_handle = - 1\<rparr> su = (False, su) \<and>
         copy_data env \<lparr>sub_id = T, sub_handle = - 1\<rparr> buffer su = ((False, buffer), su)"
proof -
  from assms(1,2) have none: "find_subscription (subscriptions im) T 0 = None"
    by (simp add: find_subscription_None_iff)
  from find_empty_sub_Some [OF assms(3)] assms(1) have k: "k < length (subscriptions im)"
    by simp
  have "OrbSubscription_new env T st =
           (\<lparr>sub_id = T, sub_handle = - 1\<rparr>,
            st\<lparr>world := w, trace := trace st @ [Orb_subscribe T h, PX4_ERR Failed_to_subscribe]\<rparr>)"
    using assms(4,5) by (simp add: OrbSubscription_new_def call_def emit_def)
  moreover have "\<not> sub_is_valid \<lparr>sub_id = T, sub_handle = - 1\<rparr>"
    by (simp add: sub_is_valid_def)
  ultimately show ?thesis
    using ensure_subscription_new [OF none assms(3,4)] assms(5) k
    by (simp add: check_updated_def copy_data_def)
qed

theorem C8_witness:
  "length (subscriptions InputManager_init) = MAX_MESSAGES \<and>
   7 \<notin> set (subscribed InputManager_init) \<and>
   find_empty_sub (subscriptions InputManager_init) 0 = Some 0 \<and>
   orb_subscribe subscribe_fails_env 7 (world sys0) = (- 1, 0) \<and>
   fst (ensure_subscription subscribe_fails_env 7 InputManager_init sys0) = Sub_slot 0 \<and>
   trace (snd (snd (ensure_subscription subscribe_fails_env 7 InputManager_init sys0))) =
     [PX4_INFO (Subscribing 7), Orb_subscribe 7 (- 1), PX4_ERR Failed_to_subscribe] \<and>
   sub_at (fst (snd (ensure_subscription subscribe_fails_env 7 InputManager_init sys0)))
     (fst (ensure_subscription subscribe_fails_env 7 InputManager_init sys0)) =
     \<lparr>sub_id = 7, sub_handle = - 1\<rparr> \<and>
   check_updated subscribe_fails_env \<lparr>sub_id = 7, sub_handle = - 1\<rparr> sys0 = (False, sys0) \<and>
   copy_data subscribe_fails_env \<lparr>sub_id = 7, sub_handle = - 1\<rparr> [0, 0] sys0 = ((False, [0, 0]), sys0)"
proof -
  have a: "7 \<notin> set (subscribed InputManager_init)"
    by (simp add: subscribed_init)
  have b: "find_empty_sub (subscriptions InputManager_init) 0 = Some 0"
    by (simp add: find_empty_sub.simps InputManager_init_def MAX_MESSAGES_def
        OrbSubscription_default_def sub_is_valid_def)
  have c: "orb_subscribe subscribe_fails_env 7 (world sys0) = (- 1, 0)"
    by (simp add: subscribe_fails_env_def mock_env_def sys0_def)
  have d: "(- 1 :: int) < 0"
    by simp
  from C8_failed_subscription_is_inert [OF InputManager_init_length a b c d, of sys0 "[0, 0]"]
    InputManager_init_length a b c
  show ?thesis
    by (simp add: sys0_def InputManager_init_def MAX_MESSAGES_def)
qed

subsection \<open>A failure stops one index, not the loop\<close>


subsection \<open>The slot of a topic that is too large\<close>

text \<open>
  C10. The input relay calls \<open>ensure_subscription\<close> before it looks at the size. For a
  topic \<open>T\<close> without a binding, when a slot is free, the bus accepts the subscription and
  the new binding reports a fresh update: the pass of the loop subscribes to \<open>T\<close>, binds
  the free slot to it, checks for the update, and then logs that \<open>T\<close> exceeds the buffer
  and stops, with no \<open>orb_copy\<close> and no write. The pool has one more valid binding.
\<close>

theorem C10_oversize_topic_takes_a_slot:
  assumes "length (subscriptions im) = MAX_MESSAGES"
    and "T \<notin> set (subscribed im)"
    and "find_empty_sub (subscriptions im) 0 = Some k"
    and "rust_get_input_message_id env i (world st) = ((FFI_SUCCESS, T), w1)"
    and "orb_subscribe env T w1 = (h, w2)"
    and "0 \<le> h"
    and "orb_check env h w2 = ((rc, True), w3)"
    and "0 \<le> rc"
    and "MAX_MESSAGE_SIZE < o_size env T"
  shows "input_iteration env i im st =
           (im\<lparr>subscriptions := (subscriptions im)[k := \<lparr>sub_id = T, sub_handle = h\<rparr>]\<rparr>,
            st\<lparr>world := w3,
               trace := trace st @
                 [Get_input_id i FFI_SUCCESS T, PX4_INFO (Subscribing T), Orb_subscribe T h,
                  Orb_check T h rc True,
                  PX4_ERR (Size_exceeds_max (o_size env T) MAX_MESSAGE_SIZE T)]\<rparr>) \<and>
         T \<in> set (subscribed (fst (input_iteration env i im st))) \<and>
         length (subscribed (fst (input_iteration env i im st))) = Suc (length (subscribed im))"
proof -
  from assms(1,2) have none: "find_subscription (subscriptions im) T 0 = None"
    by (simp add: find_subscription_None_iff)
  from find_empty_sub_Some [OF assms(3)] assms(1) have k: "k < length (subscriptions im)"
    "\<not> sub_is_valid (subscriptions im ! k)"
    by simp_all
  define st1 where "st1 = emit (Get_input_id i FFI_SUCCESS T) (st\<lparr>world := w1\<rparr>)"
  have w: "orb_subscribe env T (world st1) = (h, w2)"
    using assms(5) by (simp add: st1_def emit_def)
  have it: "input_iteration env i im st =
           (im\<lparr>subscriptions := (subscriptions im)[k := \<lparr>sub_id = T, sub_handle = h\<rparr>]\<rparr>,
            st\<lparr>world := w3,
               trace := trace st @
                 [Get_input_id i FFI_SUCCESS T, PX4_INFO (Subscribing T), Orb_subscribe T h,
                  Orb_check T h rc True,
                  PX4_ERR (Size_exceeds_max (o_size env T) MAX_MESSAGE_SIZE T)]\<rparr>)"
    using assms(4,6,7,8,9) k(1) ensure_subscription_new [OF none assms(3) w]
    by (simp add: input_iteration_def call_def st1_def emit_def check_updated_def sub_is_valid_def
        Let_def)
  from assms(6) filter_update_invalid_slot(1) [where P = sub_is_valid and v = "\<lparr>sub_id = T, sub_handle = h\<rparr>", OF k]
    filter_update_invalid_slot(2) [where P = sub_is_valid, OF k]
  have "T \<in> set (subscribed (im\<lparr>subscriptions := (subscriptions im)[k := \<lparr>sub_id = T, sub_handle = h\<rparr>]\<rparr>))"
    "length (subscribed (im\<lparr>subscriptions := (subscriptions im)[k := \<lparr>sub_id = T, sub_handle = h\<rparr>]\<rparr>)) =
       Suc (length (subscribed im))"
    by (simp_all add: subscribed_def sub_is_valid_def)
  with it show ?thesis
    by simp
qed

theorem C10_witness:
  "length (subscriptions InputManager_init) = MAX_MESSAGES \<and>
   7 \<notin> set (subscribed InputManager_init) \<and>
   find_empty_sub (subscriptions InputManager_init) 0 = Some 0 \<and>
   rust_get_input_message_id oversize_env 0 (world sys0) = ((FFI_SUCCESS, 7), 0) \<and>
   orb_subscribe oversize_env 7 0 = (7, 0) \<and>
   orb_check oversize_env 7 0 = ((0, True), 0) \<and>
   MAX_MESSAGE_SIZE < o_size oversize_env 7 \<and>
   trace (snd (input_iteration oversize_env 0 InputManager_init sys0)) =
     [Get_input_id 0 FFI_SUCCESS 7, PX4_INFO (Subscribing 7), Orb_subscribe 7 7,
      Orb_check 7 7 0 True, PX4_ERR (Size_exceeds_max 2000 1024 7)] \<and>
   subscribed InputManager_init = [] \<and>
   7 \<in> set (subscribed (fst (input_iteration oversize_env 0 InputManager_init sys0))) \<and>
   length (subscribed (fst (input_iteration oversize_env 0 InputManager_init sys0))) = 1"
proof -
  have a: "7 \<notin> set (subscribed InputManager_init)"
    by (simp add: subscribed_init)
  have b: "find_empty_sub (subscriptions InputManager_init) 0 = Some 0"
    by (simp add: find_empty_sub.simps InputManager_init_def MAX_MESSAGES_def
        OrbSubscription_default_def sub_is_valid_def)
  have c: "rust_get_input_message_id oversize_env 0 (world sys0) = ((FFI_SUCCESS, 7), 0)"
    "orb_subscribe oversize_env 7 0 = (7, 0)"
    "orb_check oversize_env 7 0 = ((0, True), 0)"
    "MAX_MESSAGE_SIZE < o_size oversize_env 7"
    by (simp_all add: oversize_env_def mock_env_def sys0_def MAX_MESSAGE_SIZE_def)
  have s: "o_size oversize_env 7 = 2000"
    by (simp add: oversize_env_def mock_env_def)
  have d: "(0 :: int) \<le> 7" "(0 :: int) \<le> 0"
    by simp_all
  note r = C10_oversize_topic_takes_a_slot [OF InputManager_init_length a b c(1,2) d(1) c(3) d(2) c(4)]
  from r have t: "trace (snd (input_iteration oversize_env 0 InputManager_init sys0)) =
     [Get_input_id 0 FFI_SUCCESS 7, PX4_INFO (Subscribing 7), Orb_subscribe 7 7,
      Orb_check 7 7 0 True, PX4_ERR (Size_exceeds_max 2000 1024 7)]"
    by (simp add: sys0_def s MAX_MESSAGE_SIZE_def)
  from r have m: "7 \<in> set (subscribed (fst (input_iteration oversize_env 0 InputManager_init sys0)))"
    "length (subscribed (fst (input_iteration oversize_env 0 InputManager_init sys0))) =
       Suc (length (subscribed InputManager_init))"
    by blast+
  from InputManager_init_length a b c t m show ?thesis
    by (simp add: subscribed_init)
qed


end
